theory Spec2Isabelle
  imports Complex_Main
begin

section \<open>Geometry helpers (backend/app.py, lines 37-55)\<close>

text \<open>
  Python floats are idealised as real numbers throughout: \<open>math.sin\<close>, \<open>math.cos\<close>,
  \<open>math.asin\<close>, \<open>math.sqrt\<close> and \<open>math.radians\<close> are the real functions, and no
  rounding, infinity or NaN is modelled. A coordinate is the pair (latitude, longitude).
\<close>

type_synonym coord = "real \<times> real"

definition radians :: "real \<Rightarrow> real" where
  "radians d = d * pi / 180"

definition haversine :: "coord \<Rightarrow> coord \<Rightarrow> real" where
  "haversine a b =
     (case a of (lat1, lon1) \<Rightarrow> case b of (lat2, lon2) \<Rightarrow>
        let R = 6371000;
            dphi = radians (lat2 - lat1);
            dl = radians (lon2 - lon1);
            p1 = radians lat1;
            p2 = radians lat2;
            h = (sin (dphi / 2))\<^sup>2 + cos p1 * cos p2 * (sin (dl / 2))\<^sup>2
        in 2 * R * arcsin (sqrt h))"

definition deg_buffer_for_km :: "real \<Rightarrow> real \<Rightarrow> real \<times> real" where
  "deg_buffer_for_km lat km =
     (let dlat = km / 110.574;
          dlon = km / (111.320 * max 0.1 (cos (radians lat)))
      in (dlat, dlon))"

definition compute_buffer_km :: "real \<Rightarrow> real \<Rightarrow> real \<Rightarrow> real \<Rightarrow> real" where
  "compute_buffer_km start_lat start_lng end_lat end_lng =
     (let dist_km = haversine (start_lat, start_lng) (end_lat, end_lng) / 1000.0
      in max 8.0 (min 60.0 (dist_km * 0.05)))"

text \<open>The clamp of the specification: \<open>clamp x lo hi\<close> is \<open>x\<close> cut to the interval.\<close>

definition clamp_spec :: "real \<Rightarrow> real \<Rightarrow> real \<Rightarrow> real" where
  "clamp_spec x lo hi = (if x < lo then lo else if hi < x then hi else x)"

section \<open>Tile keys (backend/app.py, lines 80-82)\<close>

text \<open>
  \<open>tile_key\<close> formats each bound with \<open>f"{x:.3f}"\<close>. That conversion works on the exact
  binary value of the float, so for this function a finite float is modelled exactly: a
  sign bit, a mantissa \<open>m\<close> and an exponent \<open>e\<close> standing for the value \<open>m / 2^e\<close> (every
  finite double has this form; negative zero is the sign bit with mantissa 0).
  Infinities and NaN are not modelled.
\<close>

datatype pyfloat = PyFloat (sign_bit: bool) (mantissa: nat) (exponent: nat)

definition magnitude :: "pyfloat \<Rightarrow> rat" where
  "magnitude x = of_nat (mantissa x) / 2 ^ exponent x"

definition float_val :: "pyfloat \<Rightarrow> rat" where
  "float_val x = (if sign_bit x then - magnitude x else magnitude x)"

text \<open>
  The fixed-point conversion is correctly rounded with ties to even: \<open>round_half_even n d\<close>
  is the integer nearest to \<open>n / d\<close>.
\<close>

definition round_half_even :: "nat \<Rightarrow> nat \<Rightarrow> nat" where
  "round_half_even n d =
     (let f = n div d; r = n mod d
      in if 2 * r < d then f else if d < 2 * r then f + 1
         else if even f then f else f + 1)"

definition thousandths :: "pyfloat \<Rightarrow> nat" where
  "thousandths x = round_half_even (mantissa x * 1000) (2 ^ exponent x)"

definition digit_char :: "nat \<Rightarrow> char" where
  "digit_char d = ''0123456789'' ! d"

fun decimal :: "nat \<Rightarrow> string" where
  "decimal n = (if n < 10 then [digit_char n] else decimal (n div 10) @ [digit_char (n mod 10)])"

declare decimal.simps [simp del]

text \<open>
  \<open>fmt3 x\<close> is \<open>f"{x:.3f}"\<close>: a minus sign when the sign bit is set (also when the digits
  round to zero), the integer digits, a point and three fractional digits.
\<close>

definition fmt3 :: "pyfloat \<Rightarrow> string" where
  "fmt3 x =
     (let q = thousandths x
      in (if sign_bit x then ''-'' else []) @ decimal (q div 1000) @ ''.''
         @ [digit_char (q div 100 mod 10), digit_char (q div 10 mod 10), digit_char (q mod 10)])"

definition tile_key :: "pyfloat \<Rightarrow> pyfloat \<Rightarrow> pyfloat \<Rightarrow> pyfloat \<Rightarrow> string" where
  "tile_key north south east west =
     fmt3 north @ ''_'' @ fmt3 south @ ''_'' @ fmt3 east @ ''_'' @ fmt3 west"

text \<open>Reading decimal digits back, used to show that the rendering loses nothing.\<close>

definition digit_val :: "char \<Rightarrow> nat" where
  "digit_val c = of_char c - 48"

definition undecimal :: "string \<Rightarrow> nat" where
  "undecimal s = foldl (\<lambda>acc c. 10 * acc + digit_val c) 0 s"

definition signed_mantissa :: "pyfloat \<Rightarrow> int" where
  "signed_mantissa x = (if sign_bit x then - int (mantissa x) else int (mantissa x))"

section \<open>Road graph and path extractor (backend/app.py, lines 198-255)\<close>

text \<open>
  Exceptions are values. A \<open>KeyError\<close> carries the text of the missing key, any other
  exception its message (what \<open>str(e)\<close> returns).
\<close>

datatype exn = KeyError string | Raised string

fun str_exn :: "exn \<Rightarrow> string" where
  "str_exn (KeyError k) = k"
| "str_exn (Raised msg) = msg"

definition and_then :: "exn + 'a \<Rightarrow> ('a \<Rightarrow> exn + 'b) \<Rightarrow> exn + 'b" where
  "and_then m f = (case m of Inl e \<Rightarrow> Inl e | Inr x \<Rightarrow> f x)"

definition show_int :: "int \<Rightarrow> string" where
  "show_int i = (if i < 0 then ''-'' @ decimal (nat (- i)) else decimal (nat i))"

text \<open>
  The road graph is a networkx \<open>MultiDiGraph\<close>. Nodes map to their attributes \<open>(y, x)\<close>,
  latitude first, in insertion order. \<open>g_adj G u v\<close> is the dictionary \<open>G[u][v]\<close> of the
  parallel edges from \<open>u\<close> to \<open>v\<close>, as (key, attributes) pairs in insertion order; the
  empty list stands for no entry, since networkx keeps no empty edge dictionary.
\<close>

type_synonym node = int
type_synonym edge_key = int

datatype geom =
  LineString "(real \<times> real) list"
  | MultiLineString "(real \<times> real) list list"
  | OtherGeom

record edge_data =
  ed_travel_time :: "real option"
  ed_length :: "real option"
  ed_geometry :: "geom option"

record graph =
  g_nodes :: "(node \<times> (real \<times> real)) list"
  g_adj :: "node \<Rightarrow> node \<Rightarrow> (edge_key \<times> edge_data) list"

record latlng =
  lat :: real
  lng :: real

definition node_point :: "graph \<Rightarrow> node \<Rightarrow> exn + (real \<times> real)" where
  \<comment> \<open>\<open>(G.nodes[u]["y"], G.nodes[u]["x"])\<close>\<close>
  "node_point G u =
     (case map_of (g_nodes G) u of None \<Rightarrow> Inl (KeyError (show_int u)) | Some p \<Rightarrow> Inr p)"

definition node_latlng :: "graph \<Rightarrow> node \<Rightarrow> exn + latlng" where
  \<comment> \<open>\<open>{"lat": float(G.nodes[u]["y"]), "lng": float(G.nodes[u]["x"])}\<close>\<close>
  "node_latlng G u = and_then (node_point G u) (\<lambda>(y, x). Inr \<lparr>lat = y, lng = x\<rparr>)"

definition adj_lookup :: "graph \<Rightarrow> node \<Rightarrow> node \<Rightarrow> exn + (edge_key \<times> edge_data) list" where
  \<comment> \<open>\<open>G[u][v]\<close>\<close>
  "adj_lookup G u v =
     (if map_of (g_nodes G) u = None then Inl (KeyError (show_int u))
      else if g_adj G u v = [] then Inl (KeyError (show_int v))
      else Inr (g_adj G u v))"

definition has_edge :: "graph \<Rightarrow> node \<Rightarrow> node \<Rightarrow> bool" where
  "has_edge G u v = (case adj_lookup G u v of Inl _ \<Rightarrow> False | Inr _ \<Rightarrow> True)"

definition edge_time :: "edge_data \<Rightarrow> real" where
  \<comment> \<open>the \<open>t\<close> of \<open>best_edge_key\<close>: travel time, else length (default 1e9) over 12.5\<close>
  "edge_time ed =
     (case ed_travel_time ed of
        Some t \<Rightarrow> t
      | None \<Rightarrow> (case ed_length ed of Some l \<Rightarrow> l | None \<Rightarrow> 1000000000) / 12.5)"

definition best_edge_step ::
  "edge_key \<times> edge_data \<Rightarrow> edge_key option \<times> real \<Rightarrow> edge_key option \<times> real" where
  "best_edge_step ked acc =
     (case ked of (k, ed) \<Rightarrow> case acc of (best_k, best) \<Rightarrow>
        if edge_time ed < best then (Some k, edge_time ed) else (best_k, best))"

definition best_edge_key :: "graph \<Rightarrow> node \<Rightarrow> node \<Rightarrow> edge_key option" where
  "best_edge_key G u v =
     (if \<not> has_edge G u v then None
      else fst (fold best_edge_step (g_adj G u v) (None, 100000000000000000000)))"

fun flatten_coords :: "geom \<Rightarrow> (real \<times> real) list option" where
  "flatten_coords (LineString cs) = Some cs"
| "flatten_coords (MultiLineString ls) = Some (concat ls)"
| "flatten_coords OtherGeom = None"

definition edge_coords :: "graph \<Rightarrow> node \<Rightarrow> node \<Rightarrow> edge_key option \<Rightarrow> exn + latlng list" where
  "edge_coords G u v k =
     and_then (adj_lookup G u v) (\<lambda>es.
       case k of
         None \<Rightarrow> Inl (KeyError ''None'')
       | Some k' \<Rightarrow>
          (case map_of es k' of
             None \<Rightarrow> Inl (KeyError (show_int k'))
           | Some ed \<Rightarrow>
              (let ends = and_then (node_latlng G u) (\<lambda>pu.
                          and_then (node_latlng G v) (\<lambda>pv. Inr [pu, pv]))
               in case ed_geometry ed of
                    None \<Rightarrow> ends
                  | Some g \<Rightarrow>
                     (case flatten_coords g of
                        None \<Rightarrow> ends
                      | Some coords \<Rightarrow>
                         if coords \<noteq> [] then Inr (map (\<lambda>(x, y). \<lparr>lat = y, lng = x\<rparr>) coords)
                         else ends))))"

definition node_distance :: "graph \<Rightarrow> node \<Rightarrow> node \<Rightarrow> exn + real" where
  \<comment> \<open>\<open>haversine((G.nodes[u]["y"], G.nodes[u]["x"]), (G.nodes[v]["y"], G.nodes[v]["x"]))\<close>\<close>
  "node_distance G u v =
     and_then (node_point G u) (\<lambda>pu. and_then (node_point G v) (\<lambda>pv. Inr (haversine pu pv)))"

definition edge_len_m :: "graph \<Rightarrow> node \<Rightarrow> node \<Rightarrow> exn + real" where
  "edge_len_m G u v =
     and_then (adj_lookup G u v) (\<lambda>es.
       let vals = List.map_filter (\<lambda>(k, ed). ed_length ed) es
       in if vals \<noteq> [] then Inr (fold min (tl vals) (hd vals)) else node_distance G u v)"

text \<open>The body of the loop of \<open>polyline_from_path\<close> up to the stitching: the pair \<open>(seg, L)\<close>.\<close>

definition path_segment :: "graph \<Rightarrow> bool \<Rightarrow> node \<Rightarrow> node \<Rightarrow> exn + (latlng list \<times> real)" where
  "path_segment G undirected u v =
     (if \<not> undirected then
        (let k = best_edge_key G u v
         in if k = None \<and> has_edge G v u then
              and_then (edge_coords G v u (best_edge_key G v u)) (\<lambda>seg.
              and_then (edge_len_m G v u) (\<lambda>L. Inr (rev seg, L)))
            else
              and_then (edge_coords G u v k) (\<lambda>seg.
              and_then (edge_len_m G u v) (\<lambda>L. Inr (seg, L))))
      else if has_edge G u v then
        and_then (edge_coords G u v (best_edge_key G u v)) (\<lambda>seg.
        and_then (edge_len_m G u v) (\<lambda>L. Inr (seg, L)))
      else if has_edge G v u then
        and_then (edge_coords G v u (best_edge_key G v u)) (\<lambda>seg.
        and_then (edge_len_m G v u) (\<lambda>L. Inr (rev seg, L)))
      else
        and_then (node_latlng G u) (\<lambda>pu.
        and_then (node_latlng G v) (\<lambda>pv.
        and_then (node_distance G u v) (\<lambda>L. Inr ([pu, pv], L)))))"

text \<open>
  The loop \<open>for i in range(len(path_nodes)-1)\<close>, with the index \<open>i\<close> and the accumulators
  \<open>poly\<close> and \<open>meters\<close>.
\<close>

fun polyline_loop ::
  "graph \<Rightarrow> bool \<Rightarrow> node list \<Rightarrow> nat \<Rightarrow> latlng list \<Rightarrow> real \<Rightarrow> exn + (latlng list \<times> real)" where
  "polyline_loop G undirected (u # v # rest) i poly meters =
     (case path_segment G undirected u v of
        Inl e \<Rightarrow> Inl e
      | Inr (seg, L) \<Rightarrow>
          polyline_loop G undirected (v # rest) (i + 1)
            (poly @ (if 0 < i \<and> seg \<noteq> [] then tl seg else seg)) (meters + L))"
| "polyline_loop G undirected path_nodes i poly meters = Inr (poly, meters)"

definition polyline_from_path :: "graph \<Rightarrow> node list \<Rightarrow> bool \<Rightarrow> exn + (latlng list \<times> real)" where
  "polyline_from_path G path_nodes undirected = polyline_loop G undirected path_nodes 0 [] 0"

text \<open>
  The stitching as the specification words it: the first edge contributes its whole
  coordinate sequence, every later edge its sequence with the first coordinate dropped.
\<close>

definition stitch_spec :: "latlng list list \<Rightarrow> latlng list" where
  "stitch_spec segs = (case segs of [] \<Rightarrow> [] | s # rest \<Rightarrow> s @ concat (map tl rest))"

text \<open>
  The segment that the extractor reads for a pair of consecutive path nodes is anchored
  when it starts at the coordinate of the first node, ends at the coordinate of the second
  node and repeats no coordinate in a row.
\<close>

definition anchored :: "graph \<Rightarrow> bool \<Rightarrow> node \<Rightarrow> node \<Rightarrow> bool" where
  "anchored G undirected u v =
     (case path_segment G undirected u v of
        Inl e \<Rightarrow> False
      | Inr (seg, L) \<Rightarrow>
          seg \<noteq> [] \<and> node_latlng G u = Inr (hd seg) \<and> node_latlng G v = Inr (last seg)
          \<and> distinct_adj seg)"

text \<open>
  The condition on the stored data under which the joins are clean. A stored edge from
  \<open>a\<close> to \<open>b\<close> is well formed when both end nodes are in the node table, its time as
  \<open>best_edge_key\<close> reads it is below the start value 1e20 of the search, and its stored
  coordinate sequence (the flattened geometry, as longitude-latitude pairs) runs from the
  position of \<open>a\<close> to the position of \<open>b\<close> without repeating a coordinate in a row. An
  edge without a geometry, or with an empty one, is drawn as the straight line between
  its end nodes, which must then lie at different positions. A pair of nodes is well
  formed when an edge joins them in at least one direction and every stored edge between
  them, in either direction, is well formed.
\<close>

definition edge_well_formed :: "graph \<Rightarrow> node \<Rightarrow> node \<Rightarrow> edge_data \<Rightarrow> bool" where
  "edge_well_formed G a b ed =
     (case map_of (g_nodes G) a of
        None \<Rightarrow> False
      | Some (ya, xa) \<Rightarrow>
         (case map_of (g_nodes G) b of
            None \<Rightarrow> False
          | Some (yb, xb) \<Rightarrow>
              edge_time ed < 100000000000000000000
              \<and> (case Option.bind (ed_geometry ed) flatten_coords of
                    None \<Rightarrow> (ya, xa) \<noteq> (yb, xb)
                  | Some cs \<Rightarrow>
                      if cs = [] then (ya, xa) \<noteq> (yb, xb)
                      else hd cs = (xa, ya) \<and> last cs = (xb, yb) \<and> distinct_adj cs)))"

definition pair_well_formed :: "graph \<Rightarrow> node \<Rightarrow> node \<Rightarrow> bool" where
  "pair_well_formed G u v =
     ((has_edge G u v \<or> has_edge G v u)
      \<and> (\<forall>(k, ed) \<in> set (g_adj G u v). edge_well_formed G u v ed)
      \<and> (\<forall>(k, ed) \<in> set (g_adj G v u). edge_well_formed G v u ed))"

text \<open>
  A pair of consecutive path nodes is selectable in directed mode when \<open>best_edge_key\<close>
  finds a key for the direction the extractor then reads.
\<close>

definition selectable :: "graph \<Rightarrow> node \<Rightarrow> node \<Rightarrow> bool" where
  "selectable G u v =
     (best_edge_key G u v \<noteq> None \<or> (has_edge G v u \<and> best_edge_key G v u \<noteq> None))"

section \<open>Example graphs\<close>

text \<open>
  Three nodes on the equator at longitudes 0, 1 and 2, joined by the edges 1 \<rightarrow> 2 and
  2 \<rightarrow> 3. The first edge has no stored geometry. In \<open>graph_bend\<close> the geometry of the second
  edge runs from node 2 through a bend to node 3; in \<open>graph_repeat\<close> it lists the
  coordinate of node 2 twice.
\<close>

definition plain_edge :: edge_data where
  "plain_edge = \<lparr>ed_travel_time = Some 10, ed_length = Some 100, ed_geometry = None\<rparr>"

definition three_nodes :: "(node \<times> (real \<times> real)) list" where
  "three_nodes = [(1, (0, 0)), (2, (0, 1)), (3, (0, 2))]"

definition graph_bend :: graph where
  "graph_bend = \<lparr>g_nodes = three_nodes,
     g_adj = (\<lambda>u v.
       if u = 1 \<and> v = 2 then [(0, plain_edge)]
       else if u = 2 \<and> v = 3 then
         [(0, plain_edge\<lparr>ed_geometry := Some (LineString [(1, 0), (3 / 2, 1 / 2), (2, 0)])\<rparr>)]
       else [])\<rparr>"

definition graph_repeat :: graph where
  "graph_repeat = \<lparr>g_nodes = three_nodes,
     g_adj = (\<lambda>u v.
       if u = 1 \<and> v = 2 then [(0, plain_edge)]
       else if u = 2 \<and> v = 3 then
         [(0, plain_edge\<lparr>ed_geometry := Some (LineString [(1, 0), (1, 0), (2, 0)])\<rparr>)]
       else [])\<rparr>"

text \<open>
  In \<open>graph_oneway\<close> the second edge is stored against the direction of travel, from
  node 3 through the bend to node 2, and one of the two parallel edges 1 \<rightarrow> 2 carries a
  geometry with an intermediate point.
\<close>

definition graph_oneway :: graph where
  "graph_oneway = \<lparr>g_nodes = three_nodes,
     g_adj = (\<lambda>u v.
       if u = 1 \<and> v = 2 then
         [(0, plain_edge),
          (1, plain_edge\<lparr>ed_travel_time := Some 20,
                ed_geometry := Some (MultiLineString [[(0, 0), (1 / 2, 0)], [(1, 0)]])\<rparr>)]
       else if u = 3 \<and> v = 2 then
         [(0, plain_edge\<lparr>ed_geometry := Some (LineString [(2, 0), (3 / 2, 1 / 2), (1, 0)])\<rparr>)]
       else [])\<rparr>"

text \<open>
  Two nodes joined by one edge 1 \<rightarrow> 2 whose travel time is 1e20 seconds, the start value of
  the search in \<open>best_edge_key\<close>.
\<close>

definition graph_slow :: graph where
  "graph_slow = \<lparr>g_nodes = [(1, (0, 0)), (2, (0, 1))],
     g_adj = (\<lambda>u v.
       if u = 1 \<and> v = 2 then
         [(0, \<lparr>ed_travel_time = Some 100000000000000000000, ed_length = Some 100,
               ed_geometry = None\<rparr>)]
       else [])\<rparr>"

section \<open>Effects: exceptions and the trace of calls\<close>

text \<open>
  The orchestrator calls the remote routing service and the graph library. A computation
  returns its result, or the exception it raised, together with the calls it made, in
  order. \<open>CallOsmnx b\<close> is an entry into \<open>route_via_osmnx\<close> with corridor buffer \<open>b\<close>;
  \<open>CallShortestPath w\<close> is a weighted shortest-path search of the library.
\<close>

datatype weight = TravelTime | Length

datatype event =
  CallOsrm
  | CallOsmnx real
  | CallHasPath
  | CallShortestPath weight
  | CallNxShortestPath

type_synonym 'a eff = "(exn + 'a) \<times> event list"

definition ret :: "'a \<Rightarrow> 'a eff" where
  "ret x = (Inr x, [])"

definition raise :: "exn \<Rightarrow> 'a eff" where
  "raise e = (Inl e, [])"

definition emit :: "event \<Rightarrow> unit eff" where
  "emit ev = (Inr (), [ev])"

definition lift :: "exn + 'a \<Rightarrow> 'a eff" where
  "lift r = (r, [])"

definition seq :: "'a eff \<Rightarrow> ('a \<Rightarrow> 'b eff) \<Rightarrow> 'b eff" where
  "seq m f =
     (case m of
        (Inl e, tr) \<Rightarrow> (Inl e, tr)
      | (Inr x, tr) \<Rightarrow> (case f x of (r, tr') \<Rightarrow> (r, tr @ tr')))"

definition try_except :: "'a eff \<Rightarrow> (exn \<Rightarrow> 'a eff) \<Rightarrow> 'a eff" where
  "try_except m h =
     (case m of
        (Inl e, tr) \<Rightarrow> (case h e of (r, tr') \<Rightarrow> (r, tr @ tr'))
      | (Inr x, tr) \<Rightarrow> (Inr x, tr))"

section \<open>Collaborators\<close>

text \<open>
  The remote service and the library are parameters. \<open>osrm_get\<close> is the outcome of the
  HTTP request of \<open>route_via_osrm\<close>: an exception (transport error, error status,
  malformed body) or the decoded body with its \<open>code\<close> and \<open>routes\<close>. A route's
  coordinates are (longitude, latitude) pairs. \<open>load_or_build_bbox\<close> is the tile store.
\<close>

record osrm_route =
  or_coordinates :: "(real \<times> real) list"
  or_distance :: real
  or_duration :: real

datatype osrm_reply = OsrmRaises exn | OsrmJson "string option" "osrm_route list"

record env =
  osrm_get :: "real \<Rightarrow> real \<Rightarrow> real \<Rightarrow> real \<Rightarrow> osrm_reply"
  load_or_build_bbox :: "real \<Rightarrow> real \<Rightarrow> real \<Rightarrow> real \<Rightarrow> exn + graph"
  nearest_nodes :: "graph \<Rightarrow> real \<Rightarrow> real \<Rightarrow> exn + node"
  get_undirected :: "graph \<Rightarrow> exn + graph"
  to_undirected :: "graph \<Rightarrow> exn + graph"
  has_path :: "graph \<Rightarrow> node option \<Rightarrow> node option \<Rightarrow> exn + bool"
  routing_shortest_path ::
    "graph \<Rightarrow> node option \<Rightarrow> node option \<Rightarrow> weight \<Rightarrow> exn + node list option"
  ox_shortest_path ::
    "graph \<Rightarrow> node option \<Rightarrow> node option \<Rightarrow> weight \<Rightarrow> exn + node list option"
  nx_shortest_path :: "graph \<Rightarrow> node option \<Rightarrow> node option \<Rightarrow> exn + node list"

section \<open>Route results and the remote attempt (backend/app.py, lines 62-74)\<close>

record route_result =
  polyline :: "latlng list"
  meters :: "real option"
  seconds :: "real option"
  error :: "string option"
  detail :: "string option"

definition ok_result :: "latlng list \<Rightarrow> real \<Rightarrow> real \<Rightarrow> route_result" where
  "ok_result poly m s =
     \<lparr>polyline = poly, meters = Some m, seconds = Some s, error = None, detail = None\<rparr>"

definition no_path_result :: route_result where
  "no_path_result =
     \<lparr>polyline = [], meters = None, seconds = None, error = Some ''no_path'', detail = None\<rparr>"

definition server_error_result :: "exn \<Rightarrow> route_result" where
  "server_error_result e =
     \<lparr>polyline = [], meters = None, seconds = None, error = Some ''server_error'',
      detail = Some (str_exn e)\<rparr>"

definition route_via_osrm ::
  "env \<Rightarrow> real \<Rightarrow> real \<Rightarrow> real \<Rightarrow> real \<Rightarrow> route_result option eff" where
  "route_via_osrm E start_lat start_lng end_lat end_lng =
     seq (emit CallOsrm) (\<lambda>_.
       case osrm_get E start_lat start_lng end_lat end_lng of
         OsrmRaises e \<Rightarrow> raise e
       | OsrmJson code routes \<Rightarrow>
           if code \<noteq> Some ''Ok'' \<or> routes = [] then ret None
           else
             (let route = hd routes
              in ret (Some (ok_result
                   (map (\<lambda>(x, y). \<lparr>lat = y, lng = x\<rparr>) (or_coordinates route))
                   (or_distance route) (or_duration route)))))"

section \<open>The local attempt (backend/app.py, lines 176-196 and 257-311)\<close>

definition build_corridor ::
  "env \<Rightarrow> real \<Rightarrow> real \<Rightarrow> real \<Rightarrow> real \<Rightarrow> real \<Rightarrow> exn + graph" where
  "build_corridor E start_lat start_lng end_lat end_lng buffer_km =
     (let mid_lat = (start_lat + end_lat) / 2.0
      in case deg_buffer_for_km mid_lat buffer_km of (dlat, dlon) \<Rightarrow>
        let north = max start_lat end_lat + dlat;
            south = min start_lat end_lat - dlat;
            east = max start_lng end_lng + dlon;
            west = min start_lng end_lng - dlon
        in load_or_build_bbox E north south east west)"

definition nearest_scan_step ::
  "real \<Rightarrow> real \<Rightarrow> node \<times> (real \<times> real) \<Rightarrow> node option \<times> real \<Rightarrow> node option \<times> real" where
  "nearest_scan_step la lo nd acc =
     (case nd of (n, data) \<Rightarrow> case acc of (best, best_d) \<Rightarrow>
        let dist = haversine (la, lo) data
        in if dist < best_d then (Some n, dist) else (best, best_d))"

definition nearest_node_fast :: "env \<Rightarrow> graph \<Rightarrow> real \<Rightarrow> real \<Rightarrow> node option \<times> real" where
  "nearest_node_fast E G la lo =
     (let manual = fold (nearest_scan_step la lo) (g_nodes G) (None, 100000000000000000000)
      in case nearest_nodes E G lo la of
           Inl e \<Rightarrow> manual
         | Inr nid \<Rightarrow>
            (case node_point G nid of
               Inl e \<Rightarrow> manual
             | Inr p \<Rightarrow> (Some nid, haversine (la, lo) p)))"

definition undirected_view :: "env \<Rightarrow> graph \<Rightarrow> exn + graph" where
  "undirected_view E G =
     (case get_undirected E G of Inr UG \<Rightarrow> Inr UG | Inl e \<Rightarrow> to_undirected E G)"

definition weighted_search ::
  "env \<Rightarrow> graph \<Rightarrow> node option \<Rightarrow> node option \<Rightarrow> weight \<Rightarrow> node list option eff" where
  "weighted_search E G s t w =
     seq (emit (CallShortestPath w)) (\<lambda>_.
       case routing_shortest_path E G s t w of
         Inr p \<Rightarrow> ret p
       | Inl e \<Rightarrow>
           seq (emit (CallShortestPath w)) (\<lambda>_.
             case ox_shortest_path E G s t w of Inr p \<Rightarrow> ret p | Inl e' \<Rightarrow> ret None))"

definition unweighted_search ::
  "env \<Rightarrow> graph \<Rightarrow> node option \<Rightarrow> node option \<Rightarrow> node list option eff" where
  "unweighted_search E UG s t =
     seq (emit CallNxShortestPath) (\<lambda>_.
       case nx_shortest_path E UG s t of Inr p \<Rightarrow> ret (Some p) | Inl e \<Rightarrow> ret None)"

definition usable :: "node list option \<Rightarrow> node list option" where
  \<comment> \<open>\<open>path and len(path) >= 2\<close>\<close>
  "usable path = (case path of None \<Rightarrow> None | Some p \<Rightarrow> if 2 \<le> length p then Some p else None)"

definition edge_best_time :: "graph \<Rightarrow> node \<Rightarrow> node \<Rightarrow> exn + real" where
  \<comment> \<open>\<open>min(ed.get("travel_time", edge_len_m(G,u,v)/12.5) for ed in G[u][v].values())\<close>\<close>
  "edge_best_time G u v =
     and_then (edge_len_m G u v) (\<lambda>l.
       let ts = map (\<lambda>(k, ed). case ed_travel_time ed of Some t \<Rightarrow> t | None \<Rightarrow> l / 12.5)
                  (g_adj G u v)
       in Inr (fold min (tl ts) (hd ts)))"

definition pair_seconds :: "graph \<Rightarrow> node \<Rightarrow> node \<Rightarrow> exn + real" where
  "pair_seconds G u v =
     (if has_edge G u v then edge_best_time G u v
      else if has_edge G v u then edge_best_time G v u
      else and_then (edge_len_m G u v) (\<lambda>l. Inr (l / 12.5)))"

fun path_seconds :: "graph \<Rightarrow> node list \<Rightarrow> real \<Rightarrow> exn + real" where
  "path_seconds G (u # v # rest) secs =
     (case pair_seconds G u v of
        Inl e \<Rightarrow> Inl e
      | Inr best \<Rightarrow> path_seconds G (v # rest) (secs + best))"
| "path_seconds G path secs = Inr secs"

definition undirected_stage ::
  "env \<Rightarrow> graph \<Rightarrow> graph \<Rightarrow> node option \<Rightarrow> node option \<Rightarrow> route_result option eff" where
  "undirected_stage E G UG s t =
     seq (unweighted_search E UG s t) (\<lambda>path.
       case usable path of
         Some p \<Rightarrow>
           seq (lift (polyline_from_path G p True)) (\<lambda>(poly, m).
             ret (Some (ok_result poly m (m / 12.5))))
       | None \<Rightarrow> ret None)"

definition length_stage ::
  "env \<Rightarrow> graph \<Rightarrow> graph \<Rightarrow> node option \<Rightarrow> node option \<Rightarrow> route_result option eff" where
  "length_stage E G UG s t =
     seq (weighted_search E G s t Length) (\<lambda>path.
       case usable path of
         Some p \<Rightarrow>
           seq (lift (polyline_from_path G p False)) (\<lambda>(poly, m).
             ret (Some (ok_result poly m (m / 12.5))))
       | None \<Rightarrow> undirected_stage E G UG s t)"

definition travel_time_stage ::
  "env \<Rightarrow> graph \<Rightarrow> graph \<Rightarrow> node option \<Rightarrow> node option \<Rightarrow> route_result option eff" where
  "travel_time_stage E G UG s t =
     seq (weighted_search E G s t TravelTime) (\<lambda>path.
       case usable path of
         Some p \<Rightarrow>
           seq (lift (polyline_from_path G p False)) (\<lambda>(poly, m).
           seq (lift (path_seconds G p 0)) (\<lambda>secs.
             ret (Some (ok_result poly m secs))))
       | None \<Rightarrow> length_stage E G UG s t)"

definition route_via_osmnx ::
  "env \<Rightarrow> real \<Rightarrow> real \<Rightarrow> real \<Rightarrow> real \<Rightarrow> real \<Rightarrow> route_result option eff" where
  "route_via_osmnx E start_lat start_lng end_lat end_lng buffer_km =
     seq (emit (CallOsmnx buffer_km)) (\<lambda>_.
     seq (lift (build_corridor E start_lat start_lng end_lat end_lng buffer_km)) (\<lambda>G.
       let s = fst (nearest_node_fast E G start_lat start_lng);
           t = fst (nearest_node_fast E G end_lat end_lng)
       in seq (lift (undirected_view E G)) (\<lambda>UG.
          seq (emit CallHasPath) (\<lambda>_.
          seq (lift (has_path E UG s t)) (\<lambda>reach.
            if \<not> reach then ret None
            else travel_time_stage E G UG s t)))))"

section \<open>The orchestrator (backend/app.py, lines 327-354)\<close>

definition osrm_stage ::
  "env \<Rightarrow> real \<Rightarrow> real \<Rightarrow> real \<Rightarrow> real \<Rightarrow> string \<Rightarrow> route_result option eff" where
  "osrm_stage E start_lat start_lng end_lat end_lng engine =
     (if engine = ''auto'' \<or> engine = ''osrm'' then
        try_except (route_via_osrm E start_lat start_lng end_lat end_lng) (\<lambda>e. ret None)
      else ret None)"

primrec local_loop ::
  "(real \<Rightarrow> route_result option eff) \<Rightarrow> real \<Rightarrow> real list \<Rightarrow> route_result option eff" where
  "local_loop attempt buf [] = ret None"
| "local_loop attempt buf (mult # mults) =
     seq (attempt (min 60.0 (buf * mult))) (\<lambda>res.
       case res of Some r \<Rightarrow> ret (Some r) | None \<Rightarrow> local_loop attempt buf mults)"

definition base_buffer :: "real option \<Rightarrow> real \<Rightarrow> real \<Rightarrow> real \<Rightarrow> real \<Rightarrow> real" where
  "base_buffer buffer_km start_lat start_lng end_lat end_lng =
     (case buffer_km of
        Some b \<Rightarrow> b
      | None \<Rightarrow> compute_buffer_km start_lat start_lng end_lat end_lng)"

definition route_body ::
  "env \<Rightarrow> real \<Rightarrow> real \<Rightarrow> real \<Rightarrow> real \<Rightarrow> real option \<Rightarrow> string \<Rightarrow> route_result eff" where
  "route_body E start_lat start_lng end_lat end_lng buffer_km engine =
     seq (osrm_stage E start_lat start_lng end_lat end_lng engine) (\<lambda>osrm_res.
       case osrm_res of
         Some r \<Rightarrow> ret r
       | None \<Rightarrow>
           (let buf = base_buffer buffer_km start_lat start_lng end_lat end_lng
            in seq (local_loop (route_via_osmnx E start_lat start_lng end_lat end_lng) buf
                     [1.0, 1.6, 2.3])
                 (\<lambda>res. case res of Some r \<Rightarrow> ret r | None \<Rightarrow> ret no_path_result)))"

definition route ::
  "env \<Rightarrow> real \<Rightarrow> real \<Rightarrow> real \<Rightarrow> real \<Rightarrow> real option \<Rightarrow> string \<Rightarrow> route_result eff" where
  "route E start_lat start_lng end_lat end_lng buffer_km engine =
     try_except (route_body E start_lat start_lng end_lat end_lng buffer_km engine)
       (\<lambda>e. ret (server_error_result e))"

text \<open>The corridor buffers of the local attempts recorded in a trace, in order.\<close>

definition attempted_buffers :: "event list \<Rightarrow> real list" where
  "attempted_buffers tr =
     List.map_filter (\<lambda>ev. case ev of CallOsmnx b \<Rightarrow> Some b | _ \<Rightarrow> None) tr"

text \<open>
  The escalation as the specification words it: the base buffer times 1.0, 1.6 and 2.3,
  each capped at 60 km.
\<close>

definition buffers_spec :: "real \<Rightarrow> real list" where
  "buffers_spec buf = [min 60 (buf * 1), min 60 (buf * 1.6), min 60 (buf * 2.3)]"

section \<open>Example collaborators\<close>

text \<open>
  Stub collaborators for the example graphs, whose nodes lie on the equator at longitudes
  0, 1 and 2: the tile store returns the given graph, the nearest node is chosen by
  longitude, the undirected view is the graph itself, reachability and the weighted
  searches return the given answers, and the unweighted search finds no path.
\<close>

definition stub_env :: "graph \<Rightarrow> osrm_reply \<Rightarrow> bool \<Rightarrow> node list option \<Rightarrow> env" where
  "stub_env G reply reach path =
     \<lparr>osrm_get = (\<lambda>slat slng elat elng. reply),
      load_or_build_bbox = (\<lambda>north south east west. Inr G),
      nearest_nodes = (\<lambda>G' x y. Inr (if x \<le> 0 then 1 else if x \<le> 1 then 2 else 3)),
      get_undirected = (\<lambda>G'. Inr G'),
      to_undirected = (\<lambda>G'. Inr G'),
      has_path = (\<lambda>UG s t. Inr reach),
      routing_shortest_path = (\<lambda>G' s t w. Inr path),
      ox_shortest_path = (\<lambda>G' s t w. Inr path),
      nx_shortest_path = (\<lambda>UG s t. Inl (Raised ''no path''))\<rparr>"

definition graph_island :: graph where
  "graph_island = \<lparr>g_nodes = three_nodes, g_adj = (\<lambda>u v. [])\<rparr>"

definition no_route_reply :: osrm_reply where
  "no_route_reply = OsrmJson (Some ''NoRoute'') []"

text \<open>The remote service times out and the corridor graph has no edge at any buffer.\<close>

definition env_island :: env where
  "env_island = stub_env graph_island (OsrmRaises (Raised ''timeout'')) False None"




text \<open>The corridor graph holds one edge whose travel time is 1e20 seconds.\<close>

definition env_slow :: env where
  "env_slow = stub_env graph_slow no_route_reply True (Some [1, 2])"

text \<open>
  A corridor whose north bound is below 0.1 degrees holds the three nodes without edges;
  a wider corridor holds the path. Two nodes are reachable when the edge 1 \<rightarrow> 2 exists.
\<close>

definition env_escalate :: env where
  "env_escalate = (stub_env graph_bend no_route_reply True (Some [1, 2, 3]))
     \<lparr>load_or_build_bbox := (\<lambda>north south east west.
        Inr (if north < 0.1 then graph_island else graph_bend)),
      has_path := (\<lambda>UG s t. Inr (g_adj UG 1 2 \<noteq> []))\<rparr>"

definition bend_polyline :: "latlng list" where
  "bend_polyline = [\<lparr>lat = 0, lng = 0\<rparr>, \<lparr>lat = 0, lng = 1\<rparr>, \<lparr>lat = 1 / 2, lng = 3 / 2\<rparr>,
     \<lparr>lat = 0, lng = 2\<rparr>]"

section \<open>Properties of the geometry helpers\<close>

lemma sin_half_sq_swap: "(sin (radians (y - x) / 2))\<^sup>2 = (sin (radians (x - y) / 2))\<^sup>2"
proof -
  have "radians (y - x) / 2 = - (radians (x - y) / 2)"
    by (simp add: radians_def field_simps)
  then show ?thesis by (simp only: sin_minus power2_minus)
qed

text \<open>
  Claim C9. The great-circle distance is symmetric in its two coordinates, and the
  distance from a coordinate to itself is zero.
\<close>

theorem haversine_symmetric_zero:
  "haversine a b = haversine b a \<and> haversine a a = 0"
proof
  obtain lat1 lon1 where a: "a = (lat1, lon1)" by (cases a)
  obtain lat2 lon2 where b: "b = (lat2, lon2)" by (cases b)
  show "haversine a b = haversine b a"
    unfolding a b haversine_def Let_def prod.case
    by (simp only: sin_half_sq_swap [of lat2 lat1] sin_half_sq_swap [of lon2 lon1]
        mult.commute [of "cos (radians lat1)" "cos (radians lat2)"])
  show "haversine a a = 0"
    unfolding a haversine_def Let_def prod.case
    by (simp add: radians_def)
qed

text \<open>
  Claim C8. The default corridor half-width is the haversine distance in kilometres
  times 0.05, clamped to the interval from 8 to 60; it always lies in that interval and
  never decreases when the trip distance grows.
\<close>

theorem compute_buffer_km_clamp:
  "compute_buffer_km slat slng elat elng
     = clamp_spec (haversine (slat, slng) (elat, elng) / 1000 * 0.05) 8 60
   \<and> 8 \<le> compute_buffer_km slat slng elat elng
   \<and> compute_buffer_km slat slng elat elng \<le> 60
   \<and> (haversine (slat, slng) (elat, elng) \<le> haversine (slat', slng') (elat', elng')
        \<longrightarrow> compute_buffer_km slat slng elat elng \<le> compute_buffer_km slat' slng' elat' elng')"
  by (simp add: compute_buffer_km_def clamp_spec_def Let_def max_def min_def)

lemma haversine_origin_self: "haversine (0, 0) (0, 0) = 0"
  by (simp add: haversine_def radians_def)

lemma haversine_half_equator: "haversine (0, 0) (0, 180) = 6371000 * pi"
  by (simp add: haversine_def radians_def Let_def)

theorem compute_buffer_km_clamp_witness:
  "haversine (0, 0) (0, 0) \<le> haversine (0, 0) (0, 180)
   \<and> compute_buffer_km 0 0 0 0 \<le> compute_buffer_km 0 0 0 180
   \<and> compute_buffer_km 0 0 0 0 = 8 \<and> compute_buffer_km 0 0 0 180 = 60"
proof -
  have le: "haversine (0, 0) (0, 0) \<le> haversine (0, 0) (0, 180)"
    by (simp add: haversine_origin_self haversine_half_equator)
  have big: "(60::real) \<le> 6371000 * pi / 1000 * 0.05"
    using pi_ge_two by simp
  have a: "compute_buffer_km 0 0 0 0 = 8"
    by (simp add: compute_buffer_km_def haversine_origin_self)
  have b: "compute_buffer_km 0 0 0 180 = 60"
    using big by (simp add: compute_buffer_km_def haversine_half_equator Let_def)
  from compute_buffer_km_clamp [of 0 0 0 0 0 0 0 180] le a b show ?thesis by blast
qed

section \<open>Properties of the tile key\<close>

lemma lt10_cases:
  "(d::nat) < 10 \<Longrightarrow> d = 0 \<or> d = 1 \<or> d = 2 \<or> d = 3 \<or> d = 4 \<or> d = 5 \<or> d = 6 \<or> d = 7 \<or> d = 8 \<or> d = 9"
  by arith

lemma digit_val_digit_char: "d < 10 \<Longrightarrow> digit_val (digit_char d) = d"
  by (drule lt10_cases) (auto simp: digit_val_def digit_char_def)

lemma digit_char_inj: "a < 10 \<Longrightarrow> b < 10 \<Longrightarrow> digit_char a = digit_char b \<Longrightarrow> a = b"
  by (metis digit_val_digit_char)

lemma digit_char_not_sep:
  "d < 10 \<Longrightarrow> digit_char d \<noteq> CHR ''_'' \<and> digit_char d \<noteq> CHR ''-'' \<and> digit_char d \<noteq> CHR ''.''"
  by (drule lt10_cases) (auto simp: digit_char_def)

lemma undecimal_decimal: "undecimal (decimal n) = n"
proof (induction n rule: decimal.induct)
  case (1 n)
  show ?case
  proof (cases "n < 10")
    case True
    then show ?thesis
      by (simp add: decimal.simps [of n] undecimal_def digit_val_digit_char)
  next
    case False
    with 1 have "undecimal (decimal (n div 10)) = n div 10" by simp
    with False show ?thesis
      by (simp add: decimal.simps [of n] undecimal_def digit_val_digit_char)
  qed
qed

lemma decimal_inj: "decimal a = decimal b \<Longrightarrow> a = b"
  by (metis undecimal_decimal)

lemma decimal_chars: "c \<in> set (decimal n) \<Longrightarrow> \<exists>d<10. c = digit_char d"
proof (induction n rule: decimal.induct)
  case (1 n)
  show ?case
  proof (cases "n < 10")
    case True
    with 1(2) show ?thesis by (auto simp: decimal.simps [of n])
  next
    case False
    with 1(2) have "c \<in> set (decimal (n div 10)) \<or> c = digit_char (n mod 10)"
      by (auto simp: decimal.simps [of n])
    then show ?thesis
    proof
      assume "c \<in> set (decimal (n div 10))"
      with 1(1) False show ?thesis by simp
    next
      assume "c = digit_char (n mod 10)"
      moreover have "n mod 10 < 10" by simp
      ultimately show ?thesis by blast
    qed
  qed
qed

lemma decimal_nonempty: "decimal n \<noteq> []"
  by (subst decimal.simps) simp

lemma decimal_hd_not_minus: "hd (decimal n) \<noteq> CHR ''-''"
proof -
  have "hd (decimal n) \<in> set (decimal n)" using decimal_nonempty by simp
  then obtain d where "d < 10" "hd (decimal n) = digit_char d" using decimal_chars by blast
  then show ?thesis using digit_char_not_sep by metis
qed

lemma fmt3_alt:
  "fmt3 x = (if sign_bit x then ''-'' else []) @ decimal (thousandths x div 1000) @
     [CHR ''.'', digit_char (thousandths x div 100 mod 10), digit_char (thousandths x div 10 mod 10),
      digit_char (thousandths x mod 10)]"
  by (simp add: fmt3_def Let_def)

lemma three_digits_eq:
  assumes "a div 1000 = b div 1000" "a div 100 mod 10 = b div 100 mod 10"
    "a div 10 mod 10 = b div 10 mod 10" "a mod 10 = b mod (10::nat)"
  shows "a = b"
proof -
  have m100: "\<And>m::nat. m mod 100 = 10 * (m div 10 mod 10) + m mod 10"
    using mod_mult2_eq [of _ 10 10] by simp
  have m1000: "\<And>m::nat. m mod 1000 = 100 * (m div 100 mod 10) + m mod 100"
    using mod_mult2_eq [of _ 100 10] by simp
  have "a mod 1000 = b mod 1000"
    using assms(2-4) by (simp only: m1000 m100)
  moreover have "a = 1000 * (a div 1000) + a mod 1000" "b = 1000 * (b div 1000) + b mod 1000"
    by simp_all
  ultimately show ?thesis using assms(1) by metis
qed

lemma fmt3_unsigned_inj:
  assumes "decimal (a div 1000) @ [CHR ''.'', digit_char (a div 100 mod 10), digit_char (a div 10 mod 10), digit_char (a mod 10)]
         = decimal (b div 1000) @ [CHR ''.'', digit_char (b div 100 mod 10), digit_char (b div 10 mod 10), digit_char (b mod 10)]"
  shows "a = b"
proof -
  from assms have d: "decimal (a div 1000) = decimal (b div 1000)"
    and f: "digit_char (a div 100 mod 10) = digit_char (b div 100 mod 10)"
      "digit_char (a div 10 mod 10) = digit_char (b div 10 mod 10)"
      "digit_char (a mod 10) = digit_char (b mod 10)"
    by simp_all
  have "a div 1000 = b div 1000" using d by (rule decimal_inj)
  moreover have "a div 100 mod 10 = b div 100 mod 10" using f(1) by (intro digit_char_inj) simp_all
  moreover have "a div 10 mod 10 = b div 10 mod 10" using f(2) by (intro digit_char_inj) simp_all
  moreover have "a mod 10 = b mod 10" using f(3) by (intro digit_char_inj) simp_all
  ultimately show ?thesis by (rule three_digits_eq)
qed

lemma fmt3_hd: "hd (fmt3 x) = CHR ''-'' \<longleftrightarrow> sign_bit x"
  using decimal_hd_not_minus [of "thousandths x div 1000"] decimal_nonempty [of "thousandths x div 1000"]
  by (simp add: fmt3_alt hd_append)

lemma fmt3_inj:
  assumes "fmt3 x = fmt3 y"
  shows "sign_bit x = sign_bit y \<and> thousandths x = thousandths y"
proof -
  have s: "sign_bit x = sign_bit y" using assms fmt3_hd by metis
  with assms have "thousandths x = thousandths y"
    by (intro fmt3_unsigned_inj) (simp add: fmt3_alt)
  with s show ?thesis by simp
qed

lemma fmt3_no_underscore: "CHR ''_'' \<notin> set (fmt3 x)"
proof
  let ?q = "thousandths x"
  assume "CHR ''_'' \<in> set (fmt3 x)"
  then have "CHR ''_'' \<in> set (decimal (?q div 1000)) \<or> CHR ''_'' = digit_char (?q div 100 mod 10)
      \<or> CHR ''_'' = digit_char (?q div 10 mod 10) \<or> CHR ''_'' = digit_char (?q mod 10)"
    by (auto simp: fmt3_alt split: if_splits)
  moreover have "CHR ''_'' \<notin> set (decimal (?q div 1000))"
    using decimal_chars digit_char_not_sep by metis
  moreover have "CHR ''_'' \<noteq> digit_char (?q div 100 mod 10)"
    using digit_char_not_sep [of "?q div 100 mod 10"] by auto
  moreover have "CHR ''_'' \<noteq> digit_char (?q div 10 mod 10)"
    using digit_char_not_sep [of "?q div 10 mod 10"] by auto
  moreover have "CHR ''_'' \<noteq> digit_char (?q mod 10)"
    using digit_char_not_sep [of "?q mod 10"] by auto
  ultimately show False by blast
qed

lemma takeWhile_upto_sep: "s \<notin> set a \<Longrightarrow> takeWhile (\<lambda>x. x \<noteq> s) (a @ s # b) = a"
  by (induction a) auto

lemma split_at_sep:
  assumes "a @ s # b = c @ s # d" "s \<notin> set a" "s \<notin> set c"
  shows "a = c \<and> b = d"
proof -
  have "takeWhile (\<lambda>x. x \<noteq> s) (a @ s # b) = a" using assms(2)
    by (rule takeWhile_upto_sep)
  moreover have "takeWhile (\<lambda>x. x \<noteq> s) (c @ s # d) = c" using assms(3)
    by (rule takeWhile_upto_sep)
  ultimately have "a = c" using assms(1) by simp
  with assms(1) show ?thesis by simp
qed

lemma tile_key_inj:
  assumes "tile_key n s e w = tile_key n' s' e' w'"
  shows "fmt3 n = fmt3 n' \<and> fmt3 s = fmt3 s' \<and> fmt3 e = fmt3 e' \<and> fmt3 w = fmt3 w'"
proof -
  from assms have 1: "fmt3 n @ CHR ''_'' # (fmt3 s @ ''_'' @ fmt3 e @ ''_'' @ fmt3 w)
      = fmt3 n' @ CHR ''_'' # (fmt3 s' @ ''_'' @ fmt3 e' @ ''_'' @ fmt3 w')"
    by (simp add: tile_key_def)
  from split_at_sep [OF 1 fmt3_no_underscore fmt3_no_underscore]
  have n: "fmt3 n = fmt3 n'"
    and 2: "fmt3 s @ CHR ''_'' # (fmt3 e @ ''_'' @ fmt3 w) = fmt3 s' @ CHR ''_'' # (fmt3 e' @ ''_'' @ fmt3 w')"
    by simp_all
  from split_at_sep [OF 2 fmt3_no_underscore fmt3_no_underscore]
  have s: "fmt3 s = fmt3 s'"
    and 3: "fmt3 e @ CHR ''_'' # fmt3 w = fmt3 e' @ CHR ''_'' # fmt3 w'"
    by simp_all
  from split_at_sep [OF 3 fmt3_no_underscore fmt3_no_underscore] n s show ?thesis by simp
qed

lemma round_half_even_bounds:
  assumes "0 < d"
  shows "2 * n \<le> 2 * (round_half_even n d * d) + d \<and> 2 * (round_half_even n d * d) \<le> 2 * n + d"
proof -
  define f where "f = n div d"
  define r where "r = n mod d"
  have n: "n = f * d + r" by (simp add: f_def r_def)
  have r: "r < d" using assms by (simp add: r_def)
  have "round_half_even n d = f \<and> 2 * r \<le> d \<or> round_half_even n d = f + 1 \<and> d \<le> 2 * r"
    by (auto simp: round_half_even_def Let_def f_def r_def)
  then show ?thesis
  proof
    assume "round_half_even n d = f \<and> 2 * r \<le> d"
    then show ?thesis using n by simp
  next
    assume "round_half_even n d = f + 1 \<and> d \<le> 2 * r"
    then show ?thesis using n r by (simp add: algebra_simps)
  qed
qed

lemma thousandths_near:
  "\<bar>of_nat (thousandths x) - 1000 * magnitude x\<bar> \<le> 1 / 2"
proof -
  define d :: nat where "d = 2 ^ exponent x"
  define n where "n = mantissa x * 1000"
  define q where "q = thousandths x"
  have d: "0 < d" by (simp add: d_def)
  have q: "q = round_half_even n d" by (simp add: q_def thousandths_def n_def d_def)
  from round_half_even_bounds [OF d, of n]
  have b: "2 * n \<le> 2 * (q * d) + d" "2 * (q * d) \<le> 2 * n + d" by (simp_all add: q)
  have m: "1000 * magnitude x = of_nat n / of_nat d"
    by (simp add: magnitude_def n_def d_def)
  have dr: "(0::rat) < of_nat d" using d by simp
  from b(1) have "(2 * of_nat n :: rat) \<le> 2 * (of_nat q * of_nat d) + of_nat d"
    by (metis of_nat_add of_nat_le_iff of_nat_mult of_nat_numeral)
  then have 1: "of_nat n / of_nat d - (of_nat q :: rat) \<le> 1 / 2"
    using dr by (simp add: field_simps)
  from b(2) have "(2 * (of_nat q * of_nat d) :: rat) \<le> 2 * of_nat n + of_nat d"
    by (metis of_nat_add of_nat_le_iff of_nat_mult of_nat_numeral)
  then have 2: "(of_nat q :: rat) - of_nat n / of_nat d \<le> 1 / 2"
    using dr by (simp add: field_simps)
  from 1 2 show ?thesis unfolding m q_def by linarith
qed

lemma thousandths_eq_close:
  assumes "thousandths x = thousandths y"
  shows "\<bar>magnitude x - magnitude y\<bar> \<le> 1 / 1000"
proof -
  have "\<bar>of_nat (thousandths y) - 1000 * magnitude x\<bar> \<le> 1 / 2"
    using thousandths_near [of x] assms by simp
  with thousandths_near [of y] show ?thesis by linarith
qed

lemma thousandths_grid:
  assumes "\<bar>1000 * magnitude x - of_nat k\<bar> < 1 / 2"
  shows "thousandths x = k"
proof -
  have "\<bar>(of_nat (thousandths x) :: rat) - of_nat k\<bar> < 1"
    using thousandths_near [of x] assms by linarith
  then have "\<bar>(of_int (int (thousandths x) - int k) :: rat)\<bar> < 1" by simp
  then have "\<bar>int (thousandths x) - int k\<bar> < 1"
    by (metis of_int_abs of_int_less_1_iff)
  then show ?thesis by linarith
qed

lemma five_not_dvd_pow2: "\<not> (5::int) dvd 2 ^ k"
proof
  assume a: "(5::int) dvd 2 ^ k"
  have "coprime (5::int) (2 ^ k)"
    by (simp add: coprime_power_right_iff)
  moreover from a have "coprime (5::int) (2 ^ k) \<longleftrightarrow> is_unit (5::int)"
    by (rule coprime_absorb_left)
  ultimately have "is_unit (5::int)" by blast
  then show False by simp
qed

lemma float_val_alt: "float_val x = of_int (signed_mantissa x) / 2 ^ exponent x"
  by (simp add: float_val_def magnitude_def signed_mantissa_def)

lemma float_diff_not_thousandth:
  "\<bar>float_val x - float_val y\<bar> \<noteq> 1 / 1000"
proof
  define N where "N = signed_mantissa x * 2 ^ exponent y - signed_mantissa y * 2 ^ exponent x"
  define k where "k = exponent x + exponent y"
  assume a: "\<bar>float_val x - float_val y\<bar> = 1 / 1000"
  have "float_val x - float_val y = of_int N / 2 ^ k"
    by (simp add: float_val_alt N_def k_def power_add field_simps)
  then have "\<bar>float_val x - float_val y\<bar> = \<bar>(of_int N :: rat)\<bar> / 2 ^ k"
    by (simp add: abs_divide del: of_int_diff of_int_mult)
  with a have "\<bar>(of_int N :: rat)\<bar> / 2 ^ k = 1 / 1000" by (simp only:)
  then have "\<bar>(of_int N :: rat)\<bar> * 1000 = 1 * 2 ^ k"
    by (subst (asm) frac_eq_eq) simp_all
  then have "(of_int (1000 * \<bar>N\<bar>) :: rat) = of_int (2 ^ k)" by simp
  then have "1000 * \<bar>N\<bar> = 2 ^ k" by (simp only: of_int_eq_iff)
  then have "(2::int) ^ k = 5 * (200 * \<bar>N\<bar>)" by simp
  then have "(5::int) dvd 2 ^ k" by (rule dvdI)
  then show False using five_not_dvd_pow2 by blast
qed

lemma same_sign_diff:
  "sign_bit x = sign_bit y \<Longrightarrow> \<bar>float_val x - float_val y\<bar> = \<bar>magnitude x - magnitude y\<bar>"
  by (simp add: float_val_def abs_minus_commute)

lemma fmt3_distinct:
  assumes "1 / 1000 \<le> \<bar>float_val x - float_val y\<bar>"
  shows "fmt3 x \<noteq> fmt3 y"
proof
  assume "fmt3 x = fmt3 y"
  then have s: "sign_bit x = sign_bit y" and t: "thousandths x = thousandths y"
    using fmt3_inj by blast+
  from thousandths_eq_close [OF t] same_sign_diff [OF s]
  have "\<bar>float_val x - float_val y\<bar> \<le> 1 / 1000" by simp
  with assms have "\<bar>float_val x - float_val y\<bar> = 1 / 1000" by simp
  then show False using float_diff_not_thousandth by blast
qed

lemma magnitude_abs: "magnitude x = \<bar>float_val x\<bar>"
  by (simp add: float_val_def magnitude_def)

lemma fmt3_stable_near_grid:
  assumes "sign_bit x = sign_bit y"
    and "\<bar>float_val x - of_int g / 1000\<bar> < 1 / 2000"
    and "\<bar>float_val y - of_int g / 1000\<bar> < 1 / 2000"
  shows "fmt3 x = fmt3 y"
proof -
  have near: "thousandths z = nat \<bar>g\<bar>" if "\<bar>float_val z - of_int g / 1000\<bar> < 1 / 2000" for z
  proof -
    have "\<bar>\<bar>float_val z\<bar> - \<bar>of_int g / 1000 :: rat\<bar>\<bar> \<le> \<bar>float_val z - of_int g / 1000\<bar>"
      by (rule abs_triangle_ineq3)
    with that have "\<bar>magnitude z - \<bar>of_int g :: rat\<bar> / 1000\<bar> < 1 / 2000"
      by (simp add: magnitude_abs)
    then have "\<bar>1000 * magnitude z - \<bar>of_int g :: rat\<bar>\<bar> < 1 / 2" by linarith
    moreover have "\<bar>of_int g :: rat\<bar> = of_nat (nat \<bar>g\<bar>)" by simp
    ultimately show ?thesis using thousandths_grid by metis
  qed
  from near [OF assms(2)] near [OF assms(3)] assms(1) show ?thesis
    by (simp add: fmt3_alt)
qed

lemma tile_key_cong:
  assumes "fmt3 n = fmt3 n'" "fmt3 s = fmt3 s'" "fmt3 e = fmt3 e'" "fmt3 w = fmt3 w'"
  shows "tile_key n s e w = tile_key n' s' e' w'"
  using assms by (simp add: tile_key_def)

lemma fmt3_same_rounding:
  "sign_bit x = sign_bit y \<Longrightarrow> thousandths x = thousandths y \<Longrightarrow> fmt3 x = fmt3 y"
  by (simp add: fmt3_alt)

text \<open>
  Claim C2, as amended. The tile key is the rendering of each bound rounded to three
  decimals (ties to even) with its sign. Hence (1) two boxes whose corresponding bounds
  have the same sign and lie strictly within 0.0005 degrees of the same multiple of 0.001
  yield the same key; (2) two boxes that differ by at least 0.001 degrees on any bound
  yield distinct keys; (3) two boxes whose corresponding bounds have the same sign and the
  same rounded thousandths yield the same key.
\<close>

theorem tile_key_rounding:
  "(sign_bit n = sign_bit n' \<and> sign_bit s = sign_bit s'
      \<and> sign_bit e = sign_bit e' \<and> sign_bit w = sign_bit w'
      \<and> \<bar>float_val n - of_int gn / 1000\<bar> < 1 / 2000 \<and> \<bar>float_val n' - of_int gn / 1000\<bar> < 1 / 2000
      \<and> \<bar>float_val s - of_int gs / 1000\<bar> < 1 / 2000 \<and> \<bar>float_val s' - of_int gs / 1000\<bar> < 1 / 2000
      \<and> \<bar>float_val e - of_int ge / 1000\<bar> < 1 / 2000 \<and> \<bar>float_val e' - of_int ge / 1000\<bar> < 1 / 2000
      \<and> \<bar>float_val w - of_int gw / 1000\<bar> < 1 / 2000 \<and> \<bar>float_val w' - of_int gw / 1000\<bar> < 1 / 2000
    \<longrightarrow> tile_key n s e w = tile_key n' s' e' w')
   \<and> (1 / 1000 \<le> \<bar>float_val n - float_val n'\<bar> \<or> 1 / 1000 \<le> \<bar>float_val s - float_val s'\<bar>
      \<or> 1 / 1000 \<le> \<bar>float_val e - float_val e'\<bar> \<or> 1 / 1000 \<le> \<bar>float_val w - float_val w'\<bar>
    \<longrightarrow> tile_key n s e w \<noteq> tile_key n' s' e' w')
   \<and> (sign_bit n = sign_bit n' \<and> sign_bit s = sign_bit s'
      \<and> sign_bit e = sign_bit e' \<and> sign_bit w = sign_bit w'
      \<and> thousandths n = thousandths n' \<and> thousandths s = thousandths s'
      \<and> thousandths e = thousandths e' \<and> thousandths w = thousandths w'
    \<longrightarrow> tile_key n s e w = tile_key n' s' e' w')"
proof (intro conjI impI)
  assume "sign_bit n = sign_bit n' \<and> sign_bit s = sign_bit s'
      \<and> sign_bit e = sign_bit e' \<and> sign_bit w = sign_bit w'
      \<and> \<bar>float_val n - of_int gn / 1000\<bar> < 1 / 2000 \<and> \<bar>float_val n' - of_int gn / 1000\<bar> < 1 / 2000
      \<and> \<bar>float_val s - of_int gs / 1000\<bar> < 1 / 2000 \<and> \<bar>float_val s' - of_int gs / 1000\<bar> < 1 / 2000
      \<and> \<bar>float_val e - of_int ge / 1000\<bar> < 1 / 2000 \<and> \<bar>float_val e' - of_int ge / 1000\<bar> < 1 / 2000
      \<and> \<bar>float_val w - of_int gw / 1000\<bar> < 1 / 2000 \<and> \<bar>float_val w' - of_int gw / 1000\<bar> < 1 / 2000"
  then show "tile_key n s e w = tile_key n' s' e' w'"
    by (intro tile_key_cong fmt3_stable_near_grid [of _ _ gn] fmt3_stable_near_grid [of _ _ gs]
        fmt3_stable_near_grid [of _ _ ge] fmt3_stable_near_grid [of _ _ gw]) simp_all
next
  assume d: "1 / 1000 \<le> \<bar>float_val n - float_val n'\<bar> \<or> 1 / 1000 \<le> \<bar>float_val s - float_val s'\<bar>
      \<or> 1 / 1000 \<le> \<bar>float_val e - float_val e'\<bar> \<or> 1 / 1000 \<le> \<bar>float_val w - float_val w'\<bar>"
  show "tile_key n s e w \<noteq> tile_key n' s' e' w'"
  proof
    assume "tile_key n s e w = tile_key n' s' e' w'"
    then have "fmt3 n = fmt3 n' \<and> fmt3 s = fmt3 s' \<and> fmt3 e = fmt3 e' \<and> fmt3 w = fmt3 w'"
      by (rule tile_key_inj)
    with d show False using fmt3_distinct by blast
  qed
next
  assume "sign_bit n = sign_bit n' \<and> sign_bit s = sign_bit s'
      \<and> sign_bit e = sign_bit e' \<and> sign_bit w = sign_bit w'
      \<and> thousandths n = thousandths n' \<and> thousandths s = thousandths s'
      \<and> thousandths e = thousandths e' \<and> thousandths w = thousandths w'"
  then show "tile_key n s e w = tile_key n' s' e' w'"
    by (intro tile_key_cong fmt3_same_rounding) simp_all
qed

text \<open>
  Concrete boxes around downtown Dallas. The north bounds 32.7890625 and 32.788818359375
  both lie within 0.0005 of 32.789 and give the same key; the north bound 32.796875 is
  more than 0.001 away and gives another key.
\<close>

theorem tile_key_rounding_witness:
  "\<bar>float_val (PyFloat False 4197 7) - of_int 32789 / 1000\<bar> < 1 / 2000
   \<and> \<bar>float_val (PyFloat False 134303 12) - of_int 32789 / 1000\<bar> < 1 / 2000
   \<and> tile_key (PyFloat False 4197 7) (PyFloat False 4196 7) (PyFloat True 12390 7) (PyFloat True 12391 7)
     = tile_key (PyFloat False 134303 12) (PyFloat False 4196 7) (PyFloat True 12390 7) (PyFloat True 12391 7)
   \<and> 1 / 1000 \<le> \<bar>float_val (PyFloat False 4197 7) - float_val (PyFloat False 4198 7)\<bar>
   \<and> tile_key (PyFloat False 4197 7) (PyFloat False 4196 7) (PyFloat True 12390 7) (PyFloat True 12391 7)
     \<noteq> tile_key (PyFloat False 4198 7) (PyFloat False 4196 7) (PyFloat True 12390 7) (PyFloat True 12391 7)"
proof -
  let ?n = "PyFloat False 4197 7" and ?n' = "PyFloat False 134303 12" and ?m = "PyFloat False 4198 7"
  let ?s = "PyFloat False 4196 7" and ?e = "PyFloat True 12390 7" and ?w = "PyFloat True 12391 7"
  have n: "\<bar>float_val ?n - of_int 32789 / 1000\<bar> < 1 / 2000"
    and n': "\<bar>float_val ?n' - of_int 32789 / 1000\<bar> < 1 / 2000"
    and s: "\<bar>float_val ?s - of_int 32781 / 1000\<bar> < 1 / 2000"
    and e: "\<bar>float_val ?e - of_int (- 96797) / 1000\<bar> < 1 / 2000"
    and w: "\<bar>float_val ?w - of_int (- 96805) / 1000\<bar> < 1 / 2000"
    and far: "1 / 1000 \<le> \<bar>float_val ?n - float_val ?m\<bar>"
    by (simp_all add: float_val_def magnitude_def)
  have same: "tile_key ?n ?s ?e ?w = tile_key ?n' ?s ?e ?w"
    using tile_key_rounding [of ?n ?n' ?s ?s ?e ?e ?w ?w 32789 32781 "- 96797" "- 96805"] n n' s e w
    by simp
  have other: "tile_key ?n ?s ?e ?w \<noteq> tile_key ?m ?s ?e ?w"
    using tile_key_rounding [of ?n ?m ?s ?s ?e ?e ?w ?w] far by blast
  from n n' same far other show ?thesis by blast
qed

lemma fmt3_just_below_tie: "fmt3 (PyFloat False 34372845 20) = ''32.780''"
  by (simp add: fmt3_def thousandths_def round_half_even_def decimal.simps digit_char_def Let_def)

lemma fmt3_just_above_tie: "fmt3 (PyFloat False 34372846 20) = ''32.781''"
  by (simp add: fmt3_def thousandths_def round_half_even_def decimal.simps digit_char_def Let_def)

text \<open>
  The north bounds 32.78049945831299 and 32.780500411987305 differ by less than 0.000001
  degrees, yet they render as 32.780 and 32.781: perturbations below 0.0005 do not keep
  the key stable across a rounding boundary.
\<close>

theorem tile_key_unstable_counterexample:
  "\<bar>float_val (PyFloat False 34372845 20) - float_val (PyFloat False 34372846 20)\<bar> < 5 / 10000
   \<and> tile_key (PyFloat False 34372845 20) (PyFloat False 4196 7) (PyFloat True 12390 7) (PyFloat True 12391 7)
     \<noteq> tile_key (PyFloat False 34372846 20) (PyFloat False 4196 7) (PyFloat True 12390 7) (PyFloat True 12391 7)"
proof
  show "\<bar>float_val (PyFloat False 34372845 20) - float_val (PyFloat False 34372846 20)\<bar> < 5 / 10000"
    by (simp add: float_val_def magnitude_def)
  show "tile_key (PyFloat False 34372845 20) (PyFloat False 4196 7) (PyFloat True 12390 7) (PyFloat True 12391 7)
     \<noteq> tile_key (PyFloat False 34372846 20) (PyFloat False 4196 7) (PyFloat True 12390 7) (PyFloat True 12391 7)"
    by (simp add: tile_key_def fmt3_just_below_tie fmt3_just_above_tie)
qed

text \<open>
  The sign is part of the key: -0.00048828125 and 0.00048828125 both round to zero at
  three decimals, and render as -0.000 and 0.000.
\<close>

lemma fmt3_keeps_sign_of_zero:
  "fmt3 (PyFloat True 1 11) = ''-0.000'' \<and> fmt3 (PyFloat False 1 11) = ''0.000''"
  by (simp add: fmt3_def thousandths_def round_half_even_def decimal.simps digit_char_def Let_def)

section \<open>Properties of the path extractor\<close>

lemma and_then_Inr [simp]: "and_then (Inr x) f = f x"
  by (simp add: and_then_def)

lemma and_then_Inl [simp]: "and_then (Inl e) f = Inl e"
  by (simp add: and_then_def)

lemma polyline_loop_stitch:
  assumes "0 < i"
    and "map (\<lambda>(a, b). path_segment G und a b) (zip (u # rest) rest) = map Inr sl"
  shows "polyline_loop G und (u # rest) i poly m
    = Inr (poly @ concat (map (tl \<circ> fst) sl), foldl (+) m (map snd sl))"
  using assms
proof (induction rest arbitrary: u i poly m sl)
  case Nil
  then show ?case by simp
next
  case (Cons v rest)
  from Cons.prems(2) obtain s sl' where sl: "sl = s # sl'"
    and s: "path_segment G und u v = Inr s"
    and rest: "map (\<lambda>(a, b). path_segment G und a b) (zip (v # rest) rest) = map Inr sl'"
    by (cases sl) auto
  obtain seg L where sp: "s = (seg, L)" by (cases s)
  have "polyline_loop G und (u # v # rest) i poly m
      = polyline_loop G und (v # rest) (i + 1) (poly @ tl seg) (m + L)"
    using s sp Cons.prems(1) by (cases seg) simp_all
  also have "\<dots> = Inr ((poly @ tl seg) @ concat (map (tl \<circ> fst) sl'), foldl (+) (m + L) (map snd sl'))"
    using Cons.IH [OF _ rest] by (simp add: comp_def)
  finally show ?case by (simp add: sl sp comp_def)
qed

lemma polyline_from_path_stitch:
  assumes "map (\<lambda>(a, b). path_segment G und a b) (zip path (tl path)) = map Inr sl"
  shows "polyline_from_path G path und
    = Inr (stitch_spec (map fst sl), foldl (+) 0 (map snd sl))"
proof (cases path)
  case Nil
  with assms show ?thesis by (simp add: polyline_from_path_def stitch_spec_def)
next
  case (Cons u rest)
  show ?thesis
  proof (cases rest)
    case Nil
    with Cons assms show ?thesis by (simp add: polyline_from_path_def stitch_spec_def)
  next
    case (Cons v rest')
    from assms \<open>path = u # rest\<close> Cons obtain s sl' where sl: "sl = s # sl'"
      and s: "path_segment G und u v = Inr s"
      and rest: "map (\<lambda>(a, b). path_segment G und a b) (zip (v # rest') rest') = map Inr sl'"
      by (cases sl) auto
    obtain seg L where sp: "s = (seg, L)" by (cases s)
    have "polyline_from_path G path und = polyline_loop G und (v # rest') 1 seg L"
      using s sp \<open>path = u # rest\<close> Cons by (simp add: polyline_from_path_def)
    also have "\<dots> = Inr (seg @ concat (map (tl \<circ> fst) sl'), foldl (+) L (map snd sl'))"
      using polyline_loop_stitch [OF _ rest, of 1] by (simp add: comp_def)
    finally show ?thesis by (simp add: sl sp stitch_spec_def comp_def)
  qed
qed

lemma anchoredD:
  assumes "anchored G und u v"
  obtains seg L where "path_segment G und u v = Inr (seg, L)" "seg \<noteq> []"
    "node_latlng G u = Inr (hd seg)" "node_latlng G v = Inr (last seg)" "distinct_adj seg"
  using assms by (auto simp: anchored_def split: sum.splits)

lemma distinct_adj_append_tl:
  assumes "distinct_adj poly" "distinct_adj seg" "seg \<noteq> []" "poly \<noteq> []" "last poly = hd seg"
  shows "distinct_adj (poly @ tl seg)"
proof (cases "tl seg")
  case Nil
  with assms(1) show ?thesis by simp
next
  case (Cons b bs)
  with assms(3) obtain a where seg: "seg = a # b # bs" by (cases seg) auto
  with assms(2) have "a \<noteq> b" "distinct_adj (b # bs)" by simp_all
  with assms(1,4,5) seg show ?thesis by (simp add: distinct_adj_append_iff)
qed

lemma last_append_tl:
  assumes "seg \<noteq> []" "poly \<noteq> []" "last poly = hd seg"
  shows "last (poly @ tl seg) = last seg"
  using assms by (cases seg; cases "tl seg") auto

lemma polyline_loop_anchored:
  assumes "0 < i" "poly \<noteq> []" "node_latlng G u = Inr (last poly)" "distinct_adj poly"
    and "\<forall>(a, b) \<in> set (zip (u # rest) rest). anchored G und a b"
  shows "\<exists>poly' m'. polyline_loop G und (u # rest) i poly m = Inr (poly', m') \<and> distinct_adj poly'"
  using assms
proof (induction rest arbitrary: u i poly m)
  case Nil
  then show ?case by simp
next
  case (Cons v rest)
  from Cons.prems(5) have "anchored G und u v" by simp
  then obtain seg L where seg: "path_segment G und u v = Inr (seg, L)" "seg \<noteq> []"
    "node_latlng G u = Inr (hd seg)" "node_latlng G v = Inr (last seg)" "distinct_adj seg"
    by (rule anchoredD)
  from seg(3) Cons.prems(3) have join: "last poly = hd seg" by simp
  have step: "polyline_loop G und (u # v # rest) i poly m
      = polyline_loop G und (v # rest) (i + 1) (poly @ tl seg) (m + L)"
    using seg(1,2) Cons.prems(1) by simp
  have "\<exists>poly' m'. polyline_loop G und (v # rest) (i + 1) (poly @ tl seg) (m + L) = Inr (poly', m')
      \<and> distinct_adj poly'"
  proof (rule Cons.IH)
    show "0 < i + 1" by simp
    show "poly @ tl seg \<noteq> []" using Cons.prems(2) by simp
    show "node_latlng G v = Inr (last (poly @ tl seg))"
      using seg(4) last_append_tl [OF seg(2) Cons.prems(2) join] by simp
    show "distinct_adj (poly @ tl seg)"
      using Cons.prems(4) seg(5) seg(2) Cons.prems(2) join by (rule distinct_adj_append_tl)
    show "\<forall>(a, b) \<in> set (zip (v # rest) rest). anchored G und a b"
      using Cons.prems(5) by simp
  qed
  with step show ?case by simp
qed

lemma polyline_from_path_anchored:
  assumes "2 \<le> length path"
    and "\<forall>(a, b) \<in> set (zip path (tl path)). anchored G und a b"
  shows "\<exists>poly m. polyline_from_path G path und = Inr (poly, m) \<and> distinct_adj poly"
proof -
  from assms(1) obtain u v rest where path: "path = u # v # rest"
    by (cases path; cases "tl path") auto
  from assms(2) path have "anchored G und u v" by simp
  then obtain seg L where seg: "path_segment G und u v = Inr (seg, L)" "seg \<noteq> []"
    "node_latlng G u = Inr (hd seg)" "node_latlng G v = Inr (last seg)" "distinct_adj seg"
    by (rule anchoredD)
  have "polyline_from_path G path und = polyline_loop G und (v # rest) 1 seg L"
    using seg(1) path by (simp add: polyline_from_path_def)
  moreover have "\<exists>poly' m'. polyline_loop G und (v # rest) 1 seg L = Inr (poly', m') \<and> distinct_adj poly'"
    using assms(2) path seg by (intro polyline_loop_anchored) simp_all
  ultimately show ?thesis by simp
qed

subsection \<open>From the stored edges to the segments read\<close>

lemma fold_best_edge_step_key:
  "fst (fold best_edge_step es acc) = Some k \<Longrightarrow> fst acc = Some k \<or> k \<in> fst ` set es"
proof (induction es arbitrary: acc)
  case Nil
  then show ?case by simp
next
  case (Cons e es)
  from Cons.prems have "fst (fold best_edge_step es (best_edge_step e acc)) = Some k" by simp
  from Cons.IH [OF this] show ?case
    by (auto simp: best_edge_step_def split: prod.splits if_splits)
qed

lemma best_edge_key_found:
  assumes "best_edge_key G u v = Some k"
  shows "has_edge G u v \<and> (\<exists>ed. map_of (g_adj G u v) k = Some ed)"
proof -
  from assms have h: "has_edge G u v"
    and "fst (fold best_edge_step (g_adj G u v) (None, 100000000000000000000)) = Some k"
    by (auto simp: best_edge_key_def split: if_splits)
  then have "k \<in> fst ` set (g_adj G u v)"
    using fold_best_edge_step_key by fastforce
  then have "map_of (g_adj G u v) k \<noteq> None" by (simp add: map_of_eq_None_iff)
  with h show ?thesis by auto
qed

lemma latlng_of_inj: "inj_on (\<lambda>(x, y). \<lparr>lat = y, lng = x\<rparr>) A"
  by (auto simp: inj_on_def)

lemma fold_best_edge_step_kept:
  "fst acc \<noteq> None \<Longrightarrow> fst (fold best_edge_step es acc) \<noteq> None"
  by (induction es arbitrary: acc) (auto simp: best_edge_step_def split: prod.splits)

lemma has_edge_adj:
  assumes "has_edge G a b"
  shows "adj_lookup G a b = Inr (g_adj G a b)" "g_adj G a b \<noteq> []"
  using assms by (auto simp: has_edge_def adj_lookup_def split: if_splits)

lemma best_edge_key_selects:
  assumes "has_edge G a b"
    and "\<forall>(k, ed) \<in> set (g_adj G a b). edge_time ed < 100000000000000000000"
  shows "\<exists>k ed. best_edge_key G a b = Some k \<and> map_of (g_adj G a b) k = Some ed"
proof -
  from has_edge_adj(2) [OF assms(1)] obtain k ed es where es: "g_adj G a b = (k, ed) # es"
    by (cases "g_adj G a b") auto
  with assms(2) have "edge_time ed < 100000000000000000000" by simp
  then have "fst (best_edge_step (k, ed) (None, 100000000000000000000)) \<noteq> None"
    by (simp add: best_edge_step_def)
  then have "fst (fold best_edge_step (g_adj G a b) (None, 100000000000000000000)) \<noteq> None"
    using es fold_best_edge_step_kept by simp
  with assms(1) obtain k' where "best_edge_key G a b = Some k'"
    by (auto simp: best_edge_key_def)
  with best_edge_key_found show ?thesis by blast
qed

lemma edge_well_formedE:
  assumes "edge_well_formed G a b ed"
  obtains ya xa yb xb where "map_of (g_nodes G) a = Some (ya, xa)"
    and "map_of (g_nodes G) b = Some (yb, xb)"
    and "edge_time ed < 100000000000000000000"
    and "case Option.bind (ed_geometry ed) flatten_coords of
           None \<Rightarrow> (ya, xa) \<noteq> (yb, xb)
         | Some cs \<Rightarrow> if cs = [] then (ya, xa) \<noteq> (yb, xb)
             else hd cs = (xa, ya) \<and> last cs = (xb, yb) \<and> distinct_adj cs"
proof -
  from assms obtain pa where a: "map_of (g_nodes G) a = Some pa"
    by (cases "map_of (g_nodes G) a") (simp_all add: edge_well_formed_def)
  obtain ya xa where pa: "pa = (ya, xa)" by (cases pa)
  from assms a pa obtain pb where b: "map_of (g_nodes G) b = Some pb"
    by (cases "map_of (g_nodes G) b") (simp_all add: edge_well_formed_def)
  obtain yb xb where pb: "pb = (yb, xb)" by (cases pb)
  from assms have "edge_time ed < 100000000000000000000
    \<and> (case Option.bind (ed_geometry ed) flatten_coords of
           None \<Rightarrow> (ya, xa) \<noteq> (yb, xb)
         | Some cs \<Rightarrow> if cs = [] then (ya, xa) \<noteq> (yb, xb)
             else hd cs = (xa, ya) \<and> last cs = (xb, yb) \<and> distinct_adj cs)"
    unfolding edge_well_formed_def a b pa pb by simp
  with a b pa pb that show thesis by blast
qed

lemma edge_well_formed_coords:
  assumes "has_edge G a b" "map_of (g_adj G a b) k = Some ed" "edge_well_formed G a b ed"
  shows "\<exists>seg. edge_coords G a b (Some k) = Inr seg \<and> seg \<noteq> []
    \<and> node_latlng G a = Inr (hd seg) \<and> node_latlng G b = Inr (last seg) \<and> distinct_adj seg"
proof -
  from assms(3) obtain ya xa yb xb where
    na: "map_of (g_nodes G) a = Some (ya, xa)" and nb: "map_of (g_nodes G) b = Some (yb, xb)"
    and geo: "case Option.bind (ed_geometry ed) flatten_coords of
                None \<Rightarrow> (ya, xa) \<noteq> (yb, xb)
              | Some cs \<Rightarrow> if cs = [] then (ya, xa) \<noteq> (yb, xb)
                  else hd cs = (xa, ya) \<and> last cs = (xb, yb) \<and> distinct_adj cs"
    by (rule edge_well_formedE)
  have pa: "node_latlng G a = Inr \<lparr>lat = ya, lng = xa\<rparr>"
    and pb: "node_latlng G b = Inr \<lparr>lat = yb, lng = xb\<rparr>"
    by (simp_all add: node_latlng_def node_point_def na nb)
  note adj = has_edge_adj(1) [OF assms(1)]
  show ?thesis
  proof (cases "Option.bind (ed_geometry ed) flatten_coords")
    case None
    with geo have "(ya, xa) \<noteq> (yb, xb)" by simp
    moreover from None have "edge_coords G a b (Some k) = Inr [\<lparr>lat = ya, lng = xa\<rparr>, \<lparr>lat = yb, lng = xb\<rparr>]"
      by (auto simp: edge_coords_def adj assms(2) pa pb Let_def split: option.splits)
    ultimately show ?thesis using pa pb by auto
  next
    case (Some cs)
    show ?thesis
    proof (cases "cs = []")
      case True
      with geo Some have "(ya, xa) \<noteq> (yb, xb)" by simp
      moreover from Some True
      have "edge_coords G a b (Some k) = Inr [\<lparr>lat = ya, lng = xa\<rparr>, \<lparr>lat = yb, lng = xb\<rparr>]"
        by (auto simp: edge_coords_def adj assms(2) pa pb Let_def split: option.splits)
      ultimately show ?thesis using pa pb by auto
    next
      case False
      with geo Some have cs: "hd cs = (xa, ya)" "last cs = (xb, yb)" "distinct_adj cs" by simp_all
      let ?f = "\<lambda>(x, y). \<lparr>lat = y, lng = x :: real\<rparr>"
      from Some False have "edge_coords G a b (Some k) = Inr (map ?f cs)"
        by (auto simp: edge_coords_def adj assms(2) Let_def split: option.splits)
      moreover have "hd (map ?f cs) = \<lparr>lat = ya, lng = xa\<rparr>"
        using False cs(1) by (simp add: hd_map)
      moreover have "last (map ?f cs) = \<lparr>lat = yb, lng = xb\<rparr>"
        using False cs(2) by (simp add: last_map)
      moreover have "distinct_adj (map ?f cs)"
        using cs(3) by (simp add: distinct_adj_map_iff [OF latlng_of_inj])
      ultimately show ?thesis using False pa pb by simp
    qed
  qed
qed

lemma edge_well_formed_len:
  assumes "has_edge G a b" "\<forall>(k, ed) \<in> set (g_adj G a b). edge_well_formed G a b ed"
  shows "\<exists>L. edge_len_m G a b = Inr L"
proof -
  from has_edge_adj(2) [OF assms(1)] obtain k ed where "(k, ed) \<in> set (g_adj G a b)"
    by (cases "g_adj G a b") auto
  with assms(2) have "edge_well_formed G a b ed" by auto
  then have "map_of (g_nodes G) a \<noteq> None" "map_of (g_nodes G) b \<noteq> None"
    by (auto elim: edge_well_formedE)
  then show ?thesis
    by (auto simp: edge_len_m_def has_edge_adj(1) [OF assms(1)] node_distance_def node_point_def
        Let_def)
qed

lemma edges_well_formed_read:
  assumes "has_edge G a b" "\<forall>(k, ed) \<in> set (g_adj G a b). edge_well_formed G a b ed"
  shows "\<exists>seg L. best_edge_key G a b \<noteq> None
    \<and> edge_coords G a b (best_edge_key G a b) = Inr seg \<and> edge_len_m G a b = Inr L
    \<and> seg \<noteq> [] \<and> node_latlng G a = Inr (hd seg) \<and> node_latlng G b = Inr (last seg)
    \<and> distinct_adj seg"
proof -
  from assms(2) have "\<forall>(k, ed) \<in> set (g_adj G a b). edge_time ed < 100000000000000000000"
    by (auto elim: edge_well_formedE)
  from best_edge_key_selects [OF assms(1) this] obtain k ed
    where k: "best_edge_key G a b = Some k" and ed: "map_of (g_adj G a b) k = Some ed"
    by blast
  from ed have "(k, ed) \<in> set (g_adj G a b)" by (rule map_of_SomeD)
  with assms(2) have "edge_well_formed G a b ed" by auto
  from edge_well_formed_coords [OF assms(1) ed this] edge_well_formed_len [OF assms] k
  show ?thesis by auto
qed

lemma pair_well_formed_anchored:
  assumes "pair_well_formed G u v"
  shows "anchored G und u v"
proof (cases "has_edge G u v")
  case True
  from assms have "\<forall>(k, ed) \<in> set (g_adj G u v). edge_well_formed G u v ed"
    by (simp add: pair_well_formed_def)
  from edges_well_formed_read [OF True this] obtain seg L k where
    "best_edge_key G u v = Some k" "edge_coords G u v (best_edge_key G u v) = Inr seg"
    "edge_len_m G u v = Inr L" "seg \<noteq> []" "node_latlng G u = Inr (hd seg)"
    "node_latlng G v = Inr (last seg)" "distinct_adj seg"
    by blast
  with True show ?thesis by (simp add: anchored_def path_segment_def Let_def)
next
  case False
  with assms have rev_edge: "has_edge G v u"
    and wf: "\<forall>(k, ed) \<in> set (g_adj G v u). edge_well_formed G v u ed"
    by (simp_all add: pair_well_formed_def)
  from False have none: "best_edge_key G u v = None" by (simp add: best_edge_key_def)
  from edges_well_formed_read [OF rev_edge wf] obtain seg L where
    "edge_coords G v u (best_edge_key G v u) = Inr seg"
    "edge_len_m G v u = Inr L" "seg \<noteq> []" "node_latlng G v = Inr (hd seg)"
    "node_latlng G u = Inr (last seg)" "distinct_adj seg"
    by blast
  with False rev_edge none show ?thesis
    by (simp add: anchored_def path_segment_def Let_def hd_rev last_rev)
qed

lemma polyline_from_path_well_formed:
  assumes "2 \<le> length path"
    and "\<forall>(a, b) \<in> set (zip path (tl path)). pair_well_formed G a b"
  shows "\<exists>poly m. polyline_from_path G path und = Inr (poly, m) \<and> distinct_adj poly"
proof (rule polyline_from_path_anchored [OF assms(1)])
  show "\<forall>(a, b) \<in> set (zip path (tl path)). anchored G und a b"
    using assms(2) pair_well_formed_anchored by blast
qed

text \<open>
  Claim C5, as amended. Whenever every consecutive pair of the path resolves to a
  segment, the polyline is the first segment followed by every later segment without its
  first coordinate, and the length is the sum of the segment lengths. If moreover the path
  has at least two nodes and every consecutive pair is well formed in the stored graph (an
  edge joins the two nodes in at least one direction, and every stored edge between them
  has its end nodes in the node table, a time below 1e20, and a coordinate sequence that
  runs from the position of its tail node to the position of its head node without
  repeating a coordinate in a row, or no coordinates and distinct end positions), then in
  both modes the extractor returns a polyline that holds no two identical consecutive
  coordinates.
\<close>

theorem polyline_from_path_joins:
  "(\<forall>sl. map (\<lambda>(a, b). path_segment G und a b) (zip path (tl path)) = map Inr sl
      \<longrightarrow> polyline_from_path G path und
          = Inr (stitch_spec (map fst sl), foldl (+) 0 (map snd sl)))
   \<and> (2 \<le> length path \<and> (\<forall>(a, b) \<in> set (zip path (tl path)). pair_well_formed G a b)
      \<longrightarrow> (\<exists>poly m. polyline_from_path G path und = Inr (poly, m) \<and> distinct_adj poly))"
  using polyline_from_path_stitch [of G und path] polyline_from_path_well_formed [of path G und]
  by blast

subsection \<open>The extractor on the example graphs\<close>

lemmas graph_eval = polyline_from_path_def path_segment_def best_edge_key_def best_edge_step_def
  edge_time_def has_edge_def adj_lookup_def edge_coords_def edge_len_m_def node_latlng_def
  node_point_def node_distance_def List.map_filter_def Let_def plain_edge_def three_nodes_def

lemma seg12_bend: "path_segment graph_bend False 1 2
    = Inr ([\<lparr>lat = 0, lng = 0\<rparr>, \<lparr>lat = 0, lng = 1\<rparr>], 100)"
  by (simp add: graph_eval graph_bend_def)

lemma seg23_bend: "path_segment graph_bend False 2 3
    = Inr ([\<lparr>lat = 0, lng = 1\<rparr>, \<lparr>lat = 1 / 2, lng = 3 / 2\<rparr>, \<lparr>lat = 0, lng = 2\<rparr>], 100)"
  by (simp add: graph_eval graph_bend_def)

lemma seg12_repeat: "path_segment graph_repeat False 1 2
    = Inr ([\<lparr>lat = 0, lng = 0\<rparr>, \<lparr>lat = 0, lng = 1\<rparr>], 100)"
  by (simp add: graph_eval graph_repeat_def)

lemma seg23_repeat: "path_segment graph_repeat False 2 3
    = Inr ([\<lparr>lat = 0, lng = 1\<rparr>, \<lparr>lat = 0, lng = 1\<rparr>, \<lparr>lat = 0, lng = 2\<rparr>], 100)"
  by (simp add: graph_eval graph_repeat_def)

lemma seg12_oneway: "path_segment graph_oneway und 1 2
    = Inr ([\<lparr>lat = 0, lng = 0\<rparr>, \<lparr>lat = 0, lng = 1\<rparr>], 100)"
  by (simp add: graph_eval graph_oneway_def)

lemma seg23_oneway: "path_segment graph_oneway und 2 3
    = Inr ([\<lparr>lat = 0, lng = 1\<rparr>, \<lparr>lat = 1 / 2, lng = 3 / 2\<rparr>, \<lparr>lat = 0, lng = 2\<rparr>], 100)"
  by (simp add: graph_eval graph_oneway_def)

lemma well_formed_oneway:
  "pair_well_formed graph_oneway 1 2 \<and> pair_well_formed graph_oneway 2 3"
  by (simp add: pair_well_formed_def edge_well_formed_def has_edge_def adj_lookup_def
      edge_time_def graph_oneway_def plain_edge_def three_nodes_def)

text \<open>
  On \<open>graph_oneway\<close> the pair 2, 3 is joined only by the edge 3 \<rightarrow> 2, which the extractor
  reads backwards, in directed and in undirected mode.
\<close>

theorem polyline_from_path_joins_witness:
  "pair_well_formed graph_oneway 1 2 \<and> pair_well_formed graph_oneway 2 3
   \<and> \<not> has_edge graph_oneway 2 3 \<and> has_edge graph_oneway 3 2
   \<and> polyline_from_path graph_oneway [1, 2, 3] False
     = Inr ([\<lparr>lat = 0, lng = 0\<rparr>, \<lparr>lat = 0, lng = 1\<rparr>, \<lparr>lat = 1 / 2, lng = 3 / 2\<rparr>,
             \<lparr>lat = 0, lng = 2\<rparr>], 200)
   \<and> (\<exists>poly m. polyline_from_path graph_oneway [1, 2, 3] False = Inr (poly, m)
        \<and> distinct_adj poly)
   \<and> (\<exists>poly m. polyline_from_path graph_oneway [1, 2, 3] True = Inr (poly, m)
        \<and> distinct_adj poly)"
proof -
  let ?s12 = "([\<lparr>lat = 0, lng = 0\<rparr>, \<lparr>lat = 0, lng = 1\<rparr>], 100 :: real)"
  let ?s23 = "([\<lparr>lat = 0, lng = 1\<rparr>, \<lparr>lat = 1 / 2, lng = 3 / 2\<rparr>, \<lparr>lat = 0, lng = 2\<rparr>], 100 :: real)"
  have segs: "map (\<lambda>(a, b). path_segment graph_oneway False a b) (zip [1, 2, 3] (tl [1, 2, 3]))
      = map Inr [?s12, ?s23]"
    by (simp add: seg12_oneway seg23_oneway)
  have wf: "\<forall>(a, b) \<in> set (zip [1, 2, 3] (tl [1, 2, 3])). pair_well_formed graph_oneway a b"
    using well_formed_oneway by simp
  have len: "2 \<le> length [1, 2, 3 :: node]" by simp
  have edges: "\<not> has_edge graph_oneway 2 3" "has_edge graph_oneway 3 2"
    by (simp_all add: has_edge_def adj_lookup_def graph_oneway_def three_nodes_def)
  note directed = polyline_from_path_joins [of graph_oneway False "[1, 2, 3]"]
  note undirected = polyline_from_path_joins [of graph_oneway True "[1, 2, 3]"]
  from directed segs have "polyline_from_path graph_oneway [1, 2, 3] False
      = Inr (stitch_spec (map fst [?s12, ?s23]), foldl (+) 0 (map snd [?s12, ?s23]))"
    by blast
  then have val: "polyline_from_path graph_oneway [1, 2, 3] False
      = Inr ([\<lparr>lat = 0, lng = 0\<rparr>, \<lparr>lat = 0, lng = 1\<rparr>, \<lparr>lat = 1 / 2, lng = 3 / 2\<rparr>,
              \<lparr>lat = 0, lng = 2\<rparr>], 200)"
    by (simp add: stitch_spec_def)
  from directed len wf
  have d: "\<exists>poly m. polyline_from_path graph_oneway [1, 2, 3] False = Inr (poly, m)
      \<and> distinct_adj poly"
    by blast
  from undirected len wf
  have u: "\<exists>poly m. polyline_from_path graph_oneway [1, 2, 3] True = Inr (poly, m)
      \<and> distinct_adj poly"
    by blast
  from well_formed_oneway edges val d u show ?thesis by blast
qed

text \<open>
  On \<open>graph_repeat\<close> every consecutive pair is connected, and the coordinate of node 2
  appears twice in a row at the join of the two segments: dropping the first coordinate of
  the second segment leaves its repetition.
\<close>

theorem polyline_join_counterexample:
  "has_edge graph_repeat 1 2 \<and> has_edge graph_repeat 2 3
   \<and> polyline_from_path graph_repeat [1, 2, 3] False
     = Inr ([\<lparr>lat = 0, lng = 0\<rparr>, \<lparr>lat = 0, lng = 1\<rparr>, \<lparr>lat = 0, lng = 1\<rparr>, \<lparr>lat = 0, lng = 2\<rparr>], 200)
   \<and> \<not> distinct_adj [\<lparr>lat = 0, lng = 0\<rparr>, \<lparr>lat = 0, lng = 1\<rparr>, \<lparr>lat = 0, lng = 1\<rparr>, \<lparr>lat = 0, lng = 2 :: real\<rparr>]"
proof (intro conjI)
  show "has_edge graph_repeat 1 2" "has_edge graph_repeat 2 3"
    by (simp_all add: has_edge_def adj_lookup_def graph_repeat_def three_nodes_def)
  show "polyline_from_path graph_repeat [1, 2, 3] False
     = Inr ([\<lparr>lat = 0, lng = 0\<rparr>, \<lparr>lat = 0, lng = 1\<rparr>, \<lparr>lat = 0, lng = 1\<rparr>, \<lparr>lat = 0, lng = 2\<rparr>], 200)"
    by (simp add: polyline_from_path_def seg12_repeat seg23_repeat)
  show "\<not> distinct_adj [\<lparr>lat = 0, lng = 0\<rparr>, \<lparr>lat = 0, lng = 1\<rparr>, \<lparr>lat = 0, lng = 1\<rparr>, \<lparr>lat = 0, lng = 2 :: real\<rparr>]"
    by simp
qed

subsection \<open>Partiality in directed mode\<close>

lemma directed_unconnected_raises:
  assumes "\<not> has_edge G u v" "\<not> has_edge G v u"
  shows "\<exists>k. path_segment G False u v = Inl (KeyError k)"
  using assms
  by (auto simp: path_segment_def best_edge_key_def edge_coords_def has_edge_def adj_lookup_def
      split: sum.splits if_splits)

lemma node_latlng_total: "map_of (g_nodes G) u \<noteq> None \<Longrightarrow> \<exists>p. node_latlng G u = Inr p"
  by (auto simp: node_latlng_def node_point_def)

lemma edge_selected_total:
  assumes "best_edge_key G u v = Some k" "map_of (g_nodes G) u \<noteq> None" "map_of (g_nodes G) v \<noteq> None"
  shows "(\<exists>seg. edge_coords G u v (Some k) = Inr seg) \<and> (\<exists>L. edge_len_m G u v = Inr L)"
proof -
  from best_edge_key_found [OF assms(1)] obtain ed
    where h: "has_edge G u v" and ed: "map_of (g_adj G u v) k = Some ed" by blast
  from h have adj: "adj_lookup G u v = Inr (g_adj G u v)"
    by (auto simp: has_edge_def adj_lookup_def split: if_splits)
  from assms(2,3) obtain pu pv where p: "node_latlng G u = Inr pu" "node_latlng G v = Inr pv"
    using node_latlng_total by blast
  have "\<exists>seg. edge_coords G u v (Some k) = Inr seg"
    by (simp add: edge_coords_def adj ed p Let_def split: option.splits)
  moreover from assms(2,3) have "\<exists>L. edge_len_m G u v = Inr L"
    by (auto simp: edge_len_m_def adj node_distance_def node_point_def Let_def)
  ultimately show ?thesis by blast
qed

lemma directed_selectable_total:
  assumes "selectable G u v" "map_of (g_nodes G) u \<noteq> None" "map_of (g_nodes G) v \<noteq> None"
  shows "\<exists>seg L. path_segment G False u v = Inr (seg, L)"
proof (cases "best_edge_key G u v")
  case (Some k)
  from edge_selected_total [OF Some assms(2,3)] obtain seg L
    where "edge_coords G u v (Some k) = Inr seg" "edge_len_m G u v = Inr L" by blast
  with Some show ?thesis by (simp add: path_segment_def)
next
  case None
  with assms(1) obtain k where h: "has_edge G v u" and k: "best_edge_key G v u = Some k"
    by (auto simp: selectable_def)
  from edge_selected_total [OF k assms(3,2)] obtain seg L
    where "edge_coords G v u (Some k) = Inr seg" "edge_len_m G v u = Inr L" by blast
  with None h k show ?thesis by (simp add: path_segment_def)
qed

lemma polyline_loop_directed_total:
  assumes "\<forall>(a, b) \<in> set (zip path (tl path)). selectable G a b"
    and "\<forall>n \<in> set path. map_of (g_nodes G) n \<noteq> None"
  shows "\<exists>poly' m'. polyline_loop G False path i poly m = Inr (poly', m')"
  using assms
proof (induction G False path i poly m rule: polyline_loop.induct)
  case (1 G u v rest i poly meters)
  from "1.prems" have "selectable G u v" "map_of (g_nodes G) u \<noteq> None" "map_of (g_nodes G) v \<noteq> None"
    by simp_all
  then obtain seg L where seg: "path_segment G False u v = Inr (seg, L)"
    using directed_selectable_total by blast
  have "\<exists>poly' m'. polyline_loop G False (v # rest) (i + 1)
      (poly @ (if 0 < i \<and> seg \<noteq> [] then tl seg else seg)) (meters + L) = Inr (poly', m')"
    using "1.prems" by (intro "1.hyps" [OF seg refl]) simp_all
  with seg show ?case by simp
qed simp_all

lemma polyline_directed_total:
  assumes "\<forall>(a, b) \<in> set (zip path (tl path)). selectable G a b"
    and "\<forall>n \<in> set path. map_of (g_nodes G) n \<noteq> None"
  shows "\<exists>poly m. polyline_from_path G path False = Inr (poly, m)"
  unfolding polyline_from_path_def using assms by (rule polyline_loop_directed_total)

text \<open>
  Claim C10. In directed mode a pair with no edge in either direction raises a
  \<open>KeyError\<close> (\<open>directed_unconnected_raises\<close>), and the extractor is total on paths whose
  pairs are selectable (\<open>polyline_directed_total\<close>). It is not total on every connected
  path: on \<open>graph_slow\<close> the edge 1 \<rightarrow> 2 exists, \<open>best_edge_key\<close> returns no key because the
  travel time is not below its start value 1e20, and the edge lookup with the missing key
  raises.
\<close>

theorem best_edge_key_sentinel:
  "has_edge graph_slow 1 2 \<and> best_edge_key graph_slow 1 2 = None
   \<and> polyline_from_path graph_slow [1, 2] False = Inl (KeyError ''None'')"
  by (simp add: graph_eval graph_slow_def)

section \<open>Properties of the orchestrator\<close>

lemma fst_seq: "fst (seq m f) = (case fst m of Inl e \<Rightarrow> Inl e | Inr x \<Rightarrow> fst (f x))"
  by (simp add: seq_def split: prod.splits sum.splits)

lemma snd_seq: "snd (seq m f) = (case fst m of Inl e \<Rightarrow> snd m | Inr x \<Rightarrow> snd m @ snd (f x))"
  by (simp add: seq_def split: prod.splits sum.splits)

lemma fst_try_except:
  "fst (try_except m h) = (case fst m of Inl e \<Rightarrow> fst (h e) | Inr x \<Rightarrow> Inr x)"
  by (simp add: try_except_def split: prod.splits sum.splits)

lemma snd_try_except:
  "snd (try_except m h) = (case fst m of Inl e \<Rightarrow> snd m @ snd (h e) | Inr x \<Rightarrow> snd m)"
  by (simp add: try_except_def split: prod.splits sum.splits)

lemma eff_simps [simp]:
  "fst (ret x) = Inr x" "snd (ret x) = []"
  "fst (raise e) = Inl e" "snd (raise e) = []"
  "fst (emit ev) = Inr ()" "snd (emit ev) = [ev]"
  "fst (lift r) = r" "snd (lift r) = []"
  by (simp_all add: ret_def raise_def emit_def lift_def)

lemma attempted_buffers_simps [simp]:
  "attempted_buffers [] = []"
  "attempted_buffers (CallOsmnx b # tr) = b # attempted_buffers tr"
  "attempted_buffers (CallOsrm # tr) = attempted_buffers tr"
  "attempted_buffers (CallHasPath # tr) = attempted_buffers tr"
  "attempted_buffers (CallShortestPath w # tr) = attempted_buffers tr"
  "attempted_buffers (CallNxShortestPath # tr) = attempted_buffers tr"
  by (simp_all add: attempted_buffers_def List.map_filter_def)

lemma attempted_buffers_append [simp]:
  "attempted_buffers (xs @ ys) = attempted_buffers xs @ attempted_buffers ys"
  by (simp add: attempted_buffers_def List.map_filter_def)

lemma attempted_buffers_seq:
  assumes "attempted_buffers (snd m) = bs" "\<And>x. attempted_buffers (snd (f x)) = []"
  shows "attempted_buffers (snd (seq m f)) = bs"
  using assms by (simp add: snd_seq split: sum.splits)

lemma weighted_search_quiet: "attempted_buffers (snd (weighted_search E G s t w)) = []"
  by (simp add: weighted_search_def snd_seq split: sum.splits)

lemma unweighted_search_quiet: "attempted_buffers (snd (unweighted_search E UG s t)) = []"
  by (simp add: unweighted_search_def snd_seq split: sum.splits)

lemma undirected_stage_quiet: "attempted_buffers (snd (undirected_stage E G UG s t)) = []"
  unfolding undirected_stage_def
  by (rule attempted_buffers_seq [OF unweighted_search_quiet])
    (simp add: snd_seq split: option.splits sum.splits prod.splits)

lemma length_stage_quiet: "attempted_buffers (snd (length_stage E G UG s t)) = []"
  unfolding length_stage_def
  by (rule attempted_buffers_seq [OF weighted_search_quiet])
    (simp add: snd_seq undirected_stage_quiet split: option.splits sum.splits prod.splits)

lemma travel_time_stage_quiet: "attempted_buffers (snd (travel_time_stage E G UG s t)) = []"
  unfolding travel_time_stage_def
  by (rule attempted_buffers_seq [OF weighted_search_quiet])
    (simp add: snd_seq length_stage_quiet split: option.splits sum.splits prod.splits)

lemma route_via_osmnx_buffer:
  "attempted_buffers (snd (route_via_osmnx E a b c d x)) = [x]"
  by (simp add: route_via_osmnx_def snd_seq Let_def travel_time_stage_quiet
      split: sum.splits)

lemma route_via_osrm_quiet: "attempted_buffers (snd (route_via_osrm E a b c d)) = []"
  by (simp add: route_via_osrm_def snd_seq Let_def split: osrm_reply.splits)

lemma osrm_stage_quiet: "attempted_buffers (snd (osrm_stage E a b c d engine)) = []"
  by (simp add: osrm_stage_def snd_try_except route_via_osrm_quiet split: sum.splits)

text \<open>
  Claim C7. When the corridor graph and its undirected view are built and the library
  reports that the nearest nodes of start and end are not connected in the undirected
  view, the local attempt returns no result, and the only calls it has made are its own
  entry and the reachability check: no shortest-path search, weighted or not.
\<close>

theorem unreachable_attempt_fails_fast:
  assumes "build_corridor E slat slng elat elng buf = Inr G"
    and "undirected_view E G = Inr UG"
    and "has_path E UG (fst (nearest_node_fast E G slat slng))
           (fst (nearest_node_fast E G elat elng)) = Inr False"
  shows "route_via_osmnx E slat slng elat elng buf = (Inr None, [CallOsmnx buf, CallHasPath])"
  using assms
  by (simp add: route_via_osmnx_def seq_def emit_def lift_def ret_def Let_def)

lemma local_loop_all_fail:
  assumes "\<forall>mult \<in> set mults. fst (attempt (min 60 (buf * mult))) = Inr None"
  shows "fst (local_loop attempt buf mults) = Inr None"
  using assms by (induction mults) (simp_all add: fst_seq)

lemma osrm_stage_no_route:
  assumes "engine \<noteq> ''auto'' \<and> engine \<noteq> ''osrm''
      \<or> (\<forall>r. fst (route_via_osrm E a b c d) \<noteq> Inr (Some r))"
  shows "fst (osrm_stage E a b c d engine) = Inr None"
proof (cases "engine = ''auto'' \<or> engine = ''osrm''")
  case False
  then show ?thesis by (simp add: osrm_stage_def)
next
  case True
  with assms have no: "\<forall>r. fst (route_via_osrm E a b c d) \<noteq> Inr (Some r)" by blast
  show ?thesis
  proof (cases "fst (route_via_osrm E a b c d)")
    case (Inl e)
    with True show ?thesis by (simp add: osrm_stage_def fst_try_except)
  next
    case (Inr x)
    with no have "x = None" by (cases x) auto
    with Inr True show ?thesis by (simp add: osrm_stage_def fst_try_except)
  qed
qed

text \<open>
  Claim C3. When the remote attempt is skipped or yields no route (a reply without a
  route, or an exception) and the local attempts at all three buffers return no result,
  \<open>route\<close> returns the result with empty polyline, absent meters and seconds, and error
  code "no_path".
\<close>

theorem route_exhausted_no_path:
  assumes "engine \<noteq> ''auto'' \<and> engine \<noteq> ''osrm''
      \<or> (\<forall>r. fst (route_via_osrm E slat slng elat elng) \<noteq> Inr (Some r))"
    and "\<forall>mult \<in> set [1.0, 1.6, 2.3].
           fst (route_via_osmnx E slat slng elat elng
             (min 60 (base_buffer buffer_km slat slng elat elng * mult))) = Inr None"
  shows "fst (route E slat slng elat elng buffer_km engine)
    = Inr \<lparr>polyline = [], meters = None, seconds = None, error = Some ''no_path'', detail = None\<rparr>"
proof -
  have 1: "fst (osrm_stage E slat slng elat elng engine) = Inr None"
    using assms(1) by (rule osrm_stage_no_route)
  have 2: "fst (local_loop (route_via_osmnx E slat slng elat elng)
      (base_buffer buffer_km slat slng elat elng) [1.0, 1.6, 2.3]) = Inr None"
    using assms(2) by (rule local_loop_all_fail)
  have "fst (route_body E slat slng elat elng buffer_km engine) = Inr no_path_result"
    unfolding route_body_def Let_def
    by (simp only: fst_seq 1 2 sum.case option.case eff_simps)
  then show ?thesis by (simp add: route_def fst_try_except no_path_result_def)
qed

text \<open>
  Claim C4. \<open>route\<close> always returns a result and never an exception; whenever the body
  of its \<open>try\<close> block raises \<open>e\<close>, the result has an empty polyline, absent meters and
  seconds, error code "server_error" and the text of \<open>e\<close> as detail.
\<close>

theorem route_catches_exceptions:
  "(\<exists>r. fst (route E slat slng elat elng buffer_km engine) = Inr r)
   \<and> (\<forall>e. fst (route_body E slat slng elat elng buffer_km engine) = Inl e
        \<longrightarrow> fst (route E slat slng elat elng buffer_km engine)
            = Inr \<lparr>polyline = [], meters = None, seconds = None, error = Some ''server_error'',
                   detail = Some (str_exn e)\<rparr>)"
  by (cases "fst (route_body E slat slng elat elng buffer_km engine)")
    (simp_all add: route_def fst_try_except server_error_result_def)

lemma local_loop_buffers:
  assumes "\<And>x. attempted_buffers (snd (attempt x)) = [x]"
  shows "attempted_buffers (snd (local_loop attempt buf mults))
    = take (Suc (length (takeWhile (\<lambda>x. fst (attempt x) = Inr None)
              (map (\<lambda>mult. min 60 (buf * mult)) mults))))
        (map (\<lambda>mult. min 60 (buf * mult)) mults)"
proof (induction mults)
  case Nil
  then show ?case by simp
next
  case (Cons mult mults)
  show ?case
  proof (cases "fst (attempt (min 60 (buf * mult)))")
    case (Inl e)
    then show ?thesis by (simp add: snd_seq assms)
  next
    case (Inr res)
    then show ?thesis using Cons.IH by (cases res) (simp_all add: snd_seq assms)
  qed
qed

lemma local_loop_first_result:
  assumes "n < length mults"
    and "\<forall>i < n. fst (attempt (min 60 (buf * mults ! i))) = Inr None"
    and "fst (attempt (min 60 (buf * mults ! n))) = Inr (Some r)"
  shows "fst (local_loop attempt buf mults) = Inr (Some r)"
  using assms
proof (induction mults arbitrary: n)
  case Nil
  then show ?case by simp
next
  case (Cons mult mults)
  show ?case
  proof (cases n)
    case 0
    with Cons.prems(3) show ?thesis by (simp add: fst_seq)
  next
    case (Suc k)
    from Cons.prems(2) Suc have first: "fst (attempt (min 60 (buf * mult))) = Inr None"
      by auto
    have "fst (local_loop attempt buf mults) = Inr (Some r)"
    proof (rule Cons.IH [of k])
      show "k < length mults" using Cons.prems(1) Suc by simp
      show "\<forall>i < k. fst (attempt (min 60 (buf * mults ! i))) = Inr None"
        using Cons.prems(2) Suc by auto
      show "fst (attempt (min 60 (buf * mults ! k))) = Inr (Some r)"
        using Cons.prems(3) Suc by simp
    qed
    with first show ?thesis by (simp add: fst_seq)
  qed
qed

lemma buffers_spec_map: "map (\<lambda>mult. min 60 (buf * mult)) [1.0, 1.6, 2.3] = buffers_spec buf"
  by (simp add: buffers_spec_def)

lemma route_trace_local:
  assumes "fst (osrm_stage E a b c d engine) = Inr None"
  shows "attempted_buffers (snd (route E a b c d buffer_km engine))
    = attempted_buffers (snd (local_loop (route_via_osmnx E a b c d)
        (base_buffer buffer_km a b c d) [1.0, 1.6, 2.3]))"
  using assms
  by (simp add: route_def route_body_def snd_try_except snd_seq fst_seq osrm_stage_quiet Let_def
      split: sum.splits option.splits del: local_loop.simps)

lemma route_result_local:
  assumes "fst (osrm_stage E a b c d engine) = Inr None"
    and "fst (local_loop (route_via_osmnx E a b c d)
        (base_buffer buffer_km a b c d) [1.0, 1.6, 2.3]) = Inr (Some r)"
  shows "fst (route E a b c d buffer_km engine) = Inr r"
  using assms
  by (simp add: route_def route_body_def fst_try_except fst_seq Let_def del: local_loop.simps)

text \<open>
  Claim C6. In the local fallback (the remote attempt skipped or without a route), the
  buffers of the local attempts made are a prefix of the base buffer times 1.0, 1.6 and
  2.3, each capped at 60: the attempts that returned no result followed by the first one
  that did not. When that attempt returns a result, \<open>route\<close> returns it.
\<close>

theorem local_attempts_escalate:
  assumes "engine \<noteq> ''auto'' \<and> engine \<noteq> ''osrm''
      \<or> (\<forall>r. fst (route_via_osrm E slat slng elat elng) \<noteq> Inr (Some r))"
  shows "attempted_buffers (snd (route E slat slng elat elng buffer_km engine))
      = take (Suc (length (takeWhile
            (\<lambda>x. fst (route_via_osmnx E slat slng elat elng x) = Inr None)
            (buffers_spec (base_buffer buffer_km slat slng elat elng)))))
          (buffers_spec (base_buffer buffer_km slat slng elat elng))
    \<and> (\<forall>n r. n < 3
          \<and> (\<forall>i < n. fst (route_via_osmnx E slat slng elat elng
                (buffers_spec (base_buffer buffer_km slat slng elat elng) ! i)) = Inr None)
          \<and> fst (route_via_osmnx E slat slng elat elng
                (buffers_spec (base_buffer buffer_km slat slng elat elng) ! n)) = Inr (Some r)
        \<longrightarrow> fst (route E slat slng elat elng buffer_km engine) = Inr r)"
proof (intro conjI allI impI)
  let ?buf = "base_buffer buffer_km slat slng elat elng"
  let ?attempt = "route_via_osmnx E slat slng elat elng"
  have remote: "fst (osrm_stage E slat slng elat elng engine) = Inr None"
    using assms by (rule osrm_stage_no_route)
  show "attempted_buffers (snd (route E slat slng elat elng buffer_km engine))
      = take (Suc (length (takeWhile (\<lambda>x. fst (?attempt x) = Inr None) (buffers_spec ?buf))))
          (buffers_spec ?buf)"
    unfolding route_trace_local [OF remote]
    using local_loop_buffers [of ?attempt ?buf "[1.0, 1.6, 2.3]", OF route_via_osmnx_buffer]
    unfolding buffers_spec_map .
  fix n r
  assume a: "n < 3 \<and> (\<forall>i < n. fst (?attempt (buffers_spec ?buf ! i)) = Inr None)
      \<and> fst (?attempt (buffers_spec ?buf ! n)) = Inr (Some r)"
  have nth: "buffers_spec ?buf ! i = min 60 (?buf * [1.0, 1.6, 2.3] ! i)" if "i < 3" for i
    using that by (simp add: buffers_spec_map [symmetric] del: list.map)
  have "fst (local_loop ?attempt ?buf [1.0, 1.6, 2.3]) = Inr (Some r)"
  proof (rule local_loop_first_result [of n])
    show "n < length [1.0, 1.6, 2.3 :: real]" using a by simp
    show "\<forall>i < n. fst (?attempt (min 60 (?buf * [1.0, 1.6, 2.3] ! i))) = Inr None"
      using a nth by auto
    show "fst (?attempt (min 60 (?buf * [1.0, 1.6, 2.3] ! n))) = Inr (Some r)"
      using a nth by auto
  qed
  with remote show "fst (route E slat slng elat elng buffer_km engine) = Inr r"
    by (rule route_result_local)
qed

lemmas stub_eval = stub_env_def build_corridor_def undirected_view_def nearest_node_fast_def
  node_point_def three_nodes_def Let_def

lemma island_attempt:
  "route_via_osmnx env_island 0 0 0 2 x = (Inr None, [CallOsmnx x, CallHasPath])"
  by (simp add: route_via_osmnx_def env_island_def stub_eval graph_island_def
      seq_def emit_def lift_def ret_def split: prod.splits)

theorem unreachable_attempt_fails_fast_witness:
  "build_corridor env_island 0 0 0 2 10 = Inr graph_island
   \<and> has_path env_island graph_island (Some 1) (Some 3) = Inr False
   \<and> route_via_osmnx env_island 0 0 0 2 10 = (Inr None, [CallOsmnx 10, CallHasPath])"
proof -
  have b: "build_corridor env_island 0 0 0 2 10 = Inr graph_island"
    by (simp add: env_island_def stub_eval split: prod.splits)
  have u: "undirected_view env_island graph_island = Inr graph_island"
    by (simp add: env_island_def stub_eval)
  have s: "fst (nearest_node_fast env_island graph_island 0 0) = Some 1"
    and t: "fst (nearest_node_fast env_island graph_island 0 2) = Some 3"
    by (simp_all add: env_island_def stub_eval graph_island_def)
  have h: "has_path env_island graph_island (Some 1) (Some 3) = Inr False"
    by (simp add: env_island_def stub_env_def)
  from unreachable_attempt_fails_fast [OF b u, unfolded s t, OF h] b h show ?thesis by simp
qed

theorem route_exhausted_no_path_witness:
  "fst (route_via_osrm env_island 0 0 0 2) = Inl (Raised ''timeout'')
   \<and> fst (route env_island 0 0 0 2 (Some 10) ''auto'')
     = Inr \<lparr>polyline = [], meters = None, seconds = None, error = Some ''no_path'', detail = None\<rparr>"
proof -
  have r: "fst (route_via_osrm env_island 0 0 0 2) = Inl (Raised ''timeout'')"
    by (simp add: route_via_osrm_def env_island_def stub_env_def fst_seq)
  then have remote: "''auto'' \<noteq> ''auto'' \<and> ''auto'' \<noteq> ''osrm''
      \<or> (\<forall>r. fst (route_via_osrm env_island 0 0 0 2) \<noteq> Inr (Some r))"
    by simp
  have loc: "\<forall>mult \<in> set [1.0, 1.6, 2.3].
      fst (route_via_osmnx env_island 0 0 0 2 (min 60 (base_buffer (Some 10) 0 0 0 2 * mult)))
        = Inr None"
    by (simp add: island_attempt)
  from route_exhausted_no_path [OF remote loc] r show ?thesis by simp
qed

lemma seconds_bend: "path_seconds graph_bend [1, 2, 3] 0 = Inr 20"
  by (simp add: pair_seconds_def edge_best_time_def graph_eval graph_bend_def)

lemma polyline_bend:
  "polyline_from_path graph_bend [1, 2, 3] False = Inr (bend_polyline, 200)"
  by (simp add: polyline_from_path_def seg12_bend seg23_bend bend_polyline_def)


lemma slow_polyline: "polyline_from_path graph_slow [1, 2] False = Inl (KeyError ''None'')"
  by (simp add: graph_eval graph_slow_def)

lemma slow_attempt:
  "fst (route_via_osmnx env_slow 0 0 0 1 10) = Inl (KeyError ''None'')"
  by (simp add: route_via_osmnx_def env_slow_def stub_eval travel_time_stage_def
      weighted_search_def usable_def slow_polyline fst_seq split: prod.splits)

theorem route_catches_exceptions_witness:
  "fst (route_body env_slow 0 0 0 1 (Some 10) ''local'') = Inl (KeyError ''None'')
   \<and> fst (route env_slow 0 0 0 1 (Some 10) ''local'')
     = Inr \<lparr>polyline = [], meters = None, seconds = None, error = Some ''server_error'',
            detail = Some ''None''\<rparr>"
proof -
  have b: "fst (route_body env_slow 0 0 0 1 (Some 10) ''local'') = Inl (KeyError ''None'')"
    by (simp add: route_body_def osrm_stage_def base_buffer_def fst_seq slow_attempt)
  from route_catches_exceptions [of env_slow 0 0 0 1 "Some 10" "''local''"] b
  show ?thesis by simp
qed

lemma escalate_first:
  "fst (route_via_osmnx env_escalate 0 0 0 2 10) = Inr None"
  by (simp add: route_via_osmnx_def env_escalate_def stub_eval deg_buffer_for_km_def radians_def
      graph_island_def fst_seq)

lemma escalate_second:
  "fst (route_via_osmnx env_escalate 0 0 0 2 16) = Inr (Some (ok_result bend_polyline 200 20))"
proof -
  have stage: "fst (travel_time_stage env_escalate graph_bend UG s t)
      = Inr (Some (ok_result bend_polyline 200 20))" for UG s t
    by (simp add: travel_time_stage_def weighted_search_def usable_def env_escalate_def
        stub_env_def polyline_bend seconds_bend fst_seq del: path_seconds.simps)
  have corridor: "build_corridor env_escalate 0 0 0 2 16 = Inr graph_bend"
    by (simp add: env_escalate_def stub_eval deg_buffer_for_km_def radians_def)
  have view: "undirected_view env_escalate graph_bend = Inr graph_bend"
    by (simp add: env_escalate_def stub_eval)
  have reach: "has_path env_escalate graph_bend s t = Inr True" for s t
    by (simp add: env_escalate_def stub_env_def graph_bend_def)
  show ?thesis
    by (simp add: route_via_osmnx_def fst_seq corridor view reach stage Let_def)
qed

theorem local_attempts_escalate_witness:
  "fst (route_via_osmnx env_escalate 0 0 0 2 10) = Inr None
   \<and> attempted_buffers (snd (route env_escalate 0 0 0 2 (Some 10) ''local'')) = [10, 16]
   \<and> fst (route env_escalate 0 0 0 2 (Some 10) ''local'')
     = Inr (ok_result bend_polyline 200 20)"
proof -
  have engine: "''local'' \<noteq> ''auto'' \<and> ''local'' \<noteq> ''osrm''
      \<or> (\<forall>r. fst (route_via_osrm env_escalate 0 0 0 2) \<noteq> Inr (Some r))"
    by simp
  have spec: "buffers_spec (base_buffer (Some 10) 0 0 0 2) = [10, 16, 23]"
    by (simp add: buffers_spec_def base_buffer_def)
  note inst = local_attempts_escalate [OF engine, of "Some 10", unfolded spec]
  from inst have "attempted_buffers (snd (route env_escalate 0 0 0 2 (Some 10) ''local''))
      = [10, 16]"
    by (simp add: escalate_first escalate_second)
  moreover from inst have "1 < (3::nat)
      \<and> (\<forall>i < 1. fst (route_via_osmnx env_escalate 0 0 0 2 ([10, 16, 23] ! i)) = Inr None)
      \<and> fst (route_via_osmnx env_escalate 0 0 0 2 ([10, 16, 23] ! 1))
          = Inr (Some (ok_result bend_polyline 200 20))
      \<longrightarrow> fst (route env_escalate 0 0 0 2 (Some 10) ''local'')
          = Inr (ok_result bend_polyline 200 20)"
    by blast
  then have "fst (route env_escalate 0 0 0 2 (Some 10) ''local'')
      = Inr (ok_result bend_polyline 200 20)"
    by (simp add: escalate_first escalate_second)
  ultimately show ?thesis using escalate_first by simp
qed

text \<open>The cap at work: from a base buffer of 40 km the second and third attempts use 60 km.\<close>

lemma buffers_spec_capped: "buffers_spec 40 = [40, 60, 60]"
  by (simp add: buffers_spec_def)

subsection \<open>The engine and the local fallback\<close>









end
